theory Spec2Isabelle
  imports Main
begin

section \<open>JavaScript values read by home.js\<close>

text \<open>
  An exception object: only its name and its \<open>message\<close> are ever read
  (\<open>error.message\<close> in the \<open>catch\<close> of \<open>sendToServerForPrediction\<close>).
\<close>

datatype js_error = JsError (err_name: string) (message: string)

text \<open>
  What \<open>response.json()\<close> can resolve to. Numbers are the integers: on them the
  comparison, the subtraction and the decimal printing of a JavaScript Number are exact
  (below \<open>2 ^ 53\<close>). A property read yields a \<open>json option\<close>, \<open>None\<close> being
  \<open>undefined\<close>.
\<close>

datatype json =
    JNull
  | JBool bool
  | JNum int
  | JStr string
  | JArr "json list"
  | JObj "(string \<times> json) list"

type_synonym jsval = "json option"

definition digit_char :: "nat \<Rightarrow> char" where
  "digit_char d = char_of (48 + d)"

fun nat_digits :: "nat \<Rightarrow> string" where
  "nat_digits n =
     (if n < 10 then [digit_char n] else nat_digits (n div 10) @ [digit_char (n mod 10)])"

declare nat_digits.simps [simp del]

definition number_to_string :: "int \<Rightarrow> string" where
  "number_to_string i =
     (if i < 0 then CHR ''-'' # nat_digits (nat (- i)) else nat_digits (nat i))"

fun join_comma :: "string list \<Rightarrow> string" where
  "join_comma [] = []"
| "join_comma [x] = x"
| "join_comma (x # y # ys) = x @ '','' @ join_comma (y # ys)"

text \<open>
  \<open>ToString\<close>, as a template literal and \<open>new Error(v)\<close> apply it. An array prints
  its elements joined by commas, \<open>null\<close> elements as the empty string; an object
  prints as \<open>[object Object]\<close>.
\<close>

fun js_to_string :: "json \<Rightarrow> string" where
  "js_to_string JNull = ''null''"
| "js_to_string (JBool b) = (if b then ''true'' else ''false'')"
| "js_to_string (JNum n) = number_to_string n"
| "js_to_string (JStr s) = s"
| "js_to_string (JArr xs) =
     join_comma (map (\<lambda>x. case x of JNull \<Rightarrow> [] | _ \<Rightarrow> js_to_string x) xs)"
| "js_to_string (JObj kvs) = ''[object Object]''"

definition template :: "jsval \<Rightarrow> string" where
  "template v = (case v of None \<Rightarrow> ''undefined'' | Some j \<Rightarrow> js_to_string j)"

text \<open>Truthiness, as \<open>||\<close> tests it.\<close>

fun truthy :: "jsval \<Rightarrow> bool" where
  "truthy None = False"
| "truthy (Some JNull) = False"
| "truthy (Some (JBool b)) = b"
| "truthy (Some (JNum n)) = (n \<noteq> 0)"
| "truthy (Some (JStr s)) = (s \<noteq> [])"
| "truthy (Some (JArr xs)) = True"
| "truthy (Some (JObj kvs)) = True"

text \<open>
  \<open>StringToNumber\<close> on the integer fragment: surrounding ASCII white space is dropped,
  the empty string is \<open>0\<close>, an optionally signed run of decimal digits is its value, and
  anything else is \<open>NaN\<close> (\<open>None\<close>). Strings that denote fractions, exponents, hexadecimal
  literals or \<open>Infinity\<close> lie outside the fragment; no property below depends on them.
\<close>

definition is_js_space :: "char \<Rightarrow> bool" where
  "is_js_space c = (c \<in> set [CHR 0x09, CHR 0x0A, CHR 0x0B, CHR 0x0C, CHR 0x0D, CHR 0x20])"

definition trim :: "string \<Rightarrow> string" where
  "trim s = rev (dropWhile is_js_space (rev (dropWhile is_js_space s)))"

definition digit_val :: "char \<Rightarrow> nat option" where
  "digit_val c =
     (let k = of_char c :: nat in if 48 \<le> k \<and> k \<le> 57 then Some (k - 48) else None)"

fun digits_value :: "nat \<Rightarrow> string \<Rightarrow> nat option" where
  "digits_value acc [] = Some acc"
| "digits_value acc (c # cs) =
     (case digit_val c of None \<Rightarrow> None | Some d \<Rightarrow> digits_value (10 * acc + d) cs)"

definition unsigned_value :: "string \<Rightarrow> nat option" where
  "unsigned_value s = (if s = [] then None else digits_value 0 s)"

definition string_to_number :: "string \<Rightarrow> int option" where
  "string_to_number s =
     (case trim s of
        [] \<Rightarrow> Some 0
      | c # cs \<Rightarrow>
          if c = CHR ''-'' then map_option (\<lambda>n. - int n) (unsigned_value cs)
          else if c = CHR ''+'' then map_option int (unsigned_value cs)
          else map_option int (unsigned_value (c # cs)))"

fun to_number :: "jsval \<Rightarrow> int option" where
  "to_number None = None"
| "to_number (Some JNull) = Some 0"
| "to_number (Some (JBool b)) = Some (if b then 1 else 0)"
| "to_number (Some (JNum n)) = Some n"
| "to_number (Some (JStr s)) = string_to_number s"
| "to_number (Some (JArr xs)) = string_to_number (js_to_string (JArr xs))"
| "to_number (Some (JObj kvs)) = string_to_number (js_to_string (JObj kvs))"

text \<open>\<open>v > k\<close> for a numeric literal \<open>k\<close>: false when \<open>v\<close> converts to \<open>NaN\<close>.\<close>

definition js_gt :: "jsval \<Rightarrow> int \<Rightarrow> bool" where
  "js_gt v k = (case to_number v of None \<Rightarrow> False | Some n \<Rightarrow> k < n)"

text \<open>
  The message of the \<open>TypeError\<close> raised by a property read on \<open>null\<close> (V8's wording).
\<close>

definition null_read_error :: "string \<Rightarrow> js_error" where
  "null_read_error p =
     JsError ''TypeError''
       (''Cannot read properties of null (reading '' @ [CHR 0x27] @ p @ [CHR 0x27] @ '')'')"

text \<open>
  \<open>data.p\<close> for the property names the file reads (\<open>heart_rate\<close>, \<open>systolic_bp\<close>,
  \<open>diastolic_bp\<close>, \<open>error\<close>), none of which a prototype defines: \<open>null\<close> throws, an
  object yields its own property (the last of duplicate keys, as \<open>JSON.parse\<close> keeps
  it) or \<open>undefined\<close>, every other value yields \<open>undefined\<close>.
\<close>

fun get_prop :: "json \<Rightarrow> string \<Rightarrow> js_error + jsval" where
  "get_prop JNull p = Inl (null_read_error p)"
| "get_prop (JObj kvs) p = Inr (map_of (rev kvs) p)"
| "get_prop (JBool b) p = Inr None"
| "get_prop (JNum n) p = Inr None"
| "get_prop (JStr s) p = Inr None"
| "get_prop (JArr xs) p = Inr None"

text \<open>
  \<open>element.classList.contains(tok)\<close>: \<open>className\<close> split at ASCII white space.
\<close>

definition is_class_space :: "char \<Rightarrow> bool" where
  "is_class_space c = (c \<in> set [CHR 0x09, CHR 0x0A, CHR 0x0C, CHR 0x0D, CHR 0x20])"

fun class_tokens :: "string \<Rightarrow> string \<Rightarrow> string list" where
  "class_tokens cur [] = (if cur = [] then [] else [cur])"
| "class_tokens cur (c # cs) =
     (if is_class_space c
      then (if cur = [] then class_tokens [] cs else cur # class_tokens [] cs)
      else class_tokens (cur @ [c]) cs)"

definition classList_contains :: "string \<Rightarrow> string \<Rightarrow> bool" where
  "classList_contains className tok = (tok \<in> set (class_tokens [] className))"

section \<open>The page state\<close>

text \<open>
  The state gathers what the handlers of home.js read and write: the DOM properties they
  touch, the four variables of the closure (\<open>mediaRecorder\<close>, \<open>recordedChunks\<close>,
  \<open>faceCheckInterval\<close>, \<open>model\<close>), and the part of the browser they talk to: the
  timer table, the clock, the recorder's pending \<open>stop\<close> event, the detections and the
  requests in flight, the log of calls made to the outside, the console and the
  exceptions no handler caught.
\<close>

type_synonym blob = "nat list"

datatype timer_kind = FaceCheck | RejectRevert | CountdownTick int | StopRecorder

datatype rec_state = Inactive | Recording

datatype phase = LoadingModel | RequestingCamera | AwaitingMetadata | Started | NoCamera

text \<open>
  \<open>Fetch url method field filename body\<close> is the one request the file issues.
\<close>

datatype call =
    EstimateFaces
  | RecorderStart
  | RecorderStop
  | Fetch string string string string blob

record state =
  status_text :: string
  face_text :: string
  face_class :: string
  placeholder_display :: string
  grid_display :: string
  predict_disabled :: bool
  hr_value :: string
  bp_value :: string
  stress_value :: string
  mediaRecorder :: "rec_state option"
  recordedChunks :: "blob list"
  faceCheckInterval :: "nat option"
  model :: bool
  phase :: phase
  readyState :: nat
  now :: nat
  next_id :: nat
  timers :: "nat \<rightharpoonup> nat \<times> timer_kind"
  detections :: nat
  stop_pending :: bool
  fetches :: "blob list"
  calls :: "call list"
  console :: "string list"
  uncaught :: "js_error list"

subsection \<open>Timers\<close>

text \<open>
  \<open>setTimeout\<close> and \<open>setInterval\<close> enter a timer under a fresh id with its due time
  (milliseconds); the id is what the call returns. \<open>clearInterval\<close> removes the entry,
  and does nothing for \<open>undefined\<close> or an id that is no longer pending.
\<close>

definition set_timer :: "timer_kind \<Rightarrow> nat \<Rightarrow> state \<Rightarrow> state" where
  "set_timer k delay s =
     s\<lparr>timers := (timers s)(next_id s \<mapsto> (now s + delay, k)), next_id := next_id s + 1\<rparr>"

definition clearInterval :: "nat option \<Rightarrow> state \<Rightarrow> state" where
  "clearInterval h s =
     (case h of None \<Rightarrow> s | Some i \<Rightarrow> s\<lparr>timers := (timers s)(i := None)\<rparr>)"

section \<open>The handlers of home.js\<close>

subsection \<open>loadModel and initializeWebcam\<close>

definition ready_message :: string where
  "ready_message = ''Ready to start monitoring.''"

text \<open>\<open>loadModel\<close> from the point where \<open>blazeface.load()\<close> has settled.\<close>

definition loadModel_resume :: "bool \<Rightarrow> state \<Rightarrow> state" where
  "loadModel_resume loaded s =
     (if loaded
      then s\<lparr>model := True,
             console := console s @ [''BlazeFace model loaded successfully.''],
             status_text := ready_message,
             phase := RequestingCamera\<rparr>
      else s\<lparr>console := console s @ [''Error loading model:''],
             status_text := ''Error: Could not load face detection model.'',
             phase := RequestingCamera\<rparr>)"

datatype camera = Unsupported | Denied js_error | Granted

definition initializeWebcam_resume :: "camera \<Rightarrow> state \<Rightarrow> state" where
  "initializeWebcam_resume r s =
     (case r of
        Unsupported \<Rightarrow> s\<lparr>phase := NoCamera\<rparr>
      | Denied e \<Rightarrow>
          s\<lparr>console := console s @ [''Webcam Error:''],
            status_text := ''Error: Could not access webcam.'',
            face_text := ''Camera Error'',
            phase := NoCamera\<rparr>
      | Granted \<Rightarrow> s\<lparr>phase := AwaitingMetadata\<rparr>)"

text \<open>
  \<open>webcamElement.onloadedmetadata\<close>. The flag says whether
  \<open>new MediaRecorder(stream, {mimeType: 'video/webm'})\<close> returns; when it throws, the
  handler ends there, after the button was enabled.
\<close>

definition onloadedmetadata :: "bool \<Rightarrow> state \<Rightarrow> state" where
  "onloadedmetadata supported s =
     (let s1 = s\<lparr>predict_disabled := False, phase := Started\<rparr> in
      if \<not> supported
      then s1\<lparr>uncaught := uncaught s1 @ [JsError ''NotSupportedError'' []]\<rparr>
      else
        let s2 = s1\<lparr>mediaRecorder := Some Inactive\<rparr> in
        if model s2
        then (set_timer FaceCheck 500 s2)\<lparr>faceCheckInterval := Some (next_id s2)\<rparr>
        else s2)"

subsection \<open>detectFace\<close>

datatype detection = Regions nat | DetectError js_error

text \<open>
  \<open>detectFace\<close> up to its \<open>await\<close>: it returns at once unless the model is loaded and
  the video has data, and otherwise calls \<open>model.estimateFaces\<close>.
\<close>

definition detectFace_call :: "state \<Rightarrow> state" where
  "detectFace_call s =
     (if \<not> model s \<or> readyState s < 2 then s
      else s\<lparr>detections := detections s + 1, calls := calls s @ [EstimateFaces]\<rparr>)"

text \<open>\<open>detectFace\<close> from the point where \<open>estimateFaces\<close> has settled.\<close>

definition detectFace_resume :: "detection \<Rightarrow> state \<Rightarrow> state" where
  "detectFace_resume d s =
     (case d of
        Regions n \<Rightarrow>
          if n > 0
          then s\<lparr>face_text := ''Face Detected'', face_class := ''status-indicator green''\<rparr>
          else s\<lparr>face_text := ''No Face Detected'', face_class := ''status-indicator red''\<rparr>
      | DetectError e \<Rightarrow> s\<lparr>console := console s @ [''Error during face detection:'']\<rparr>)"

text \<open>One whole poll, with the detection's outcome given.\<close>

definition detectFace :: "detection \<Rightarrow> state \<Rightarrow> state" where
  "detectFace d s =
     (if \<not> model s \<or> readyState s < 2 then s
      else detectFace_resume d (s\<lparr>calls := calls s @ [EstimateFaces]\<rparr>))"

subsection \<open>startMeasurement and its timers\<close>

definition reject_message :: string where
  "reject_message = ''Please ensure your face is detected before starting.''"

definition recording_message :: "int \<Rightarrow> string" where
  "recording_message countdown =
     ''Recording... '' @ number_to_string countdown @ ''s remaining''"

definition measurementDuration :: nat where
  "measurementDuration = 30000"

text \<open>
  \<open>mediaRecorder.start()\<close>: a \<open>TypeError\<close> when the variable is still \<open>undefined\<close>, an
  \<open>InvalidStateError\<close> when the recorder is not inactive.
\<close>

definition recorder_start :: "state \<Rightarrow> js_error + state" where
  "recorder_start s =
     (case mediaRecorder s of
        None \<Rightarrow> Inl (JsError ''TypeError'' ''Cannot read properties of undefined'')
      | Some Recording \<Rightarrow> Inl (JsError ''InvalidStateError'' [])
      | Some Inactive \<Rightarrow>
          Inr (s\<lparr>mediaRecorder := Some Recording, calls := calls s @ [RecorderStart]\<rparr>))"

definition startMeasurement :: "state \<Rightarrow> state" where
  "startMeasurement s =
     (if \<not> classList_contains (face_class s) ''green''
      then set_timer RejectRevert 3000 (s\<lparr>status_text := reject_message\<rparr>)
      else
        let s1 = s\<lparr>placeholder_display := ''block'', grid_display := ''none'',
                   predict_disabled := True\<rparr>;
            s2 = clearInterval (faceCheckInterval s1) s1;
            countdown = int measurementDuration div 1000;
            s3 = s2\<lparr>status_text := recording_message countdown\<rparr>;
            s4 = set_timer (CountdownTick countdown) 1000 s3
        in case recorder_start s4 of
             Inl e \<Rightarrow> s4\<lparr>uncaught := uncaught s4 @ [e]\<rparr>
           | Inr s5 \<Rightarrow> set_timer StopRecorder measurementDuration s5)"

text \<open>The callback of the 3 s timeout of a rejected request.\<close>

definition reject_timeout :: "state \<Rightarrow> state" where
  "reject_timeout s =
     (if status_text s = reject_message then s\<lparr>status_text := ready_message\<rparr> else s)"

text \<open>
  The callback of the countdown interval \<open>tid\<close>, whose closure holds \<open>countdown\<close>; the
  timer keeps the decremented value, or is cleared at zero.
\<close>

definition countdown_tick :: "nat \<Rightarrow> int \<Rightarrow> state \<Rightarrow> state" where
  "countdown_tick tid countdown s =
     (let c = countdown - 1;
          s1 = s\<lparr>status_text := recording_message c\<rparr>
      in if c \<le> 0 then clearInterval (Some tid) s1
         else s1\<lparr>timers := (timers s1)(tid \<mapsto> (now s1 + 1000, CountdownTick c))\<rparr>)"

text \<open>
  The callback of the 30 s timeout. \<open>mediaRecorder.stop()\<close> makes the recorder
  inactive at once and queues its last \<open>dataavailable\<close> and its \<open>stop\<close> event.
\<close>

definition stop_timeout :: "state \<Rightarrow> state" where
  "stop_timeout s =
     (case mediaRecorder s of
        None \<Rightarrow>
          s\<lparr>uncaught :=
              uncaught s @ [JsError ''TypeError'' ''Cannot read properties of undefined'']\<rparr>
      | Some Inactive \<Rightarrow> s
      | Some Recording \<Rightarrow>
          s\<lparr>mediaRecorder := Some Inactive, stop_pending := True,
            calls := calls s @ [RecorderStop],
            status_text := ''Processing... Please wait.''\<rparr>)"

subsection \<open>The recorder's events\<close>

definition ondataavailable :: "blob \<Rightarrow> state \<Rightarrow> state" where
  "ondataavailable d s =
     (if length d > 0 then s\<lparr>recordedChunks := recordedChunks s @ [d]\<rparr> else s)"

text \<open>\<open>sendToServerForPrediction\<close> up to its \<open>await fetch\<close>.\<close>

definition sendToServerForPrediction :: "blob \<Rightarrow> state \<Rightarrow> state" where
  "sendToServerForPrediction b s =
     s\<lparr>fetches := fetches s @ [b],
       calls := calls s @ [Fetch ''/predict'' ''POST'' ''video_blob'' ''recording.webm'' b]\<rparr>"

text \<open>\<open>new Blob(recordedChunks)\<close> is the chunks' bytes, one after the other.\<close>

definition onstop :: "state \<Rightarrow> state" where
  "onstop s =
     (let videoBlob = concat (recordedChunks s) in
      sendToServerForPrediction videoBlob (s\<lparr>recordedChunks := []\<rparr>))"

subsection \<open>displayResults\<close>

definition stress_of :: "jsval \<Rightarrow> jsval \<Rightarrow> string" where
  "stress_of heart_rate systolic_bp =
     (if js_gt heart_rate 100 \<or> js_gt systolic_bp 135 then ''High''
      else if js_gt heart_rate 85 \<or> js_gt systolic_bp 125 then ''Moderate''
      else ''Normal'')"

definition complete_message :: string where
  "complete_message = ''Measurement complete. Ready to start monitoring.''"

text \<open>
  The result is the state reached and, when a property read threw, the exception: what
  ran before the \<open>throw\<close> stays done.
\<close>

definition displayResults :: "json \<Rightarrow> state \<Rightarrow> js_error option \<times> state" where
  "displayResults data s =
     (let s1 = s\<lparr>placeholder_display := ''none'', grid_display := ''flex''\<rparr> in
      case get_prop data ''heart_rate'' of
        Inl e \<Rightarrow> (Some e, s1)
      | Inr hr \<Rightarrow>
          let s2 = s1\<lparr>hr_value := template hr @ '' bpm''\<rparr> in
          (case get_prop data ''systolic_bp'' of
             Inl e \<Rightarrow> (Some e, s2)
           | Inr sys \<Rightarrow>
               (case get_prop data ''diastolic_bp'' of
                  Inl e \<Rightarrow> (Some e, s2)
                | Inr dia \<Rightarrow>
                    (None,
                     s2\<lparr>bp_value := template sys @ ''/'' @ template dia @ '' mmHg'',
                        stress_value := stress_of hr sys,
                        status_text := complete_message\<rparr>))))"

subsection \<open>sendToServerForPrediction, after the request has settled\<close>

datatype body = ValidJson json | InvalidJson js_error

text \<open>
  \<open>Rejected e\<close>: \<open>fetch\<close> rejects (transport failure). \<open>Response ok b\<close>: it resolves;
  \<open>ok\<close> is \<open>response.ok\<close>, and \<open>b\<close> is what \<open>response.json()\<close> does, resolving to a
  value or rejecting with a \<open>SyntaxError\<close>.
\<close>

datatype fetch_outcome = Rejected js_error | Response bool body

definition try_block :: "fetch_outcome \<Rightarrow> state \<Rightarrow> js_error option \<times> state" where
  "try_block out s =
     (case out of
        Rejected e \<Rightarrow> (Some e, s)
      | Response ok b \<Rightarrow>
          if \<not> ok
          then
            let errData =
                  (case b of
                     ValidJson j \<Rightarrow> j
                   | InvalidJson e \<Rightarrow> JObj [(''error'', JStr ''Server returned an error.'')])
            in (case get_prop errData ''error'' of
                  Inl e \<Rightarrow> (Some e, s)
                | Inr v \<Rightarrow>
                    (Some (JsError ''Error''
                       (if truthy v then template v else ''Prediction failed.'')), s))
          else
            (case b of
               InvalidJson e \<Rightarrow> (Some e, s)
             | ValidJson data \<Rightarrow> displayResults data s))"

definition catch_block :: "js_error option \<times> state \<Rightarrow> state" where
  "catch_block r =
     (case r of
        (None, s) \<Rightarrow> s
      | (Some error, s) \<Rightarrow>
          s\<lparr>console := console s @ [''Prediction Error:''],
            status_text := ''Error: '' @ message error\<rparr>)"

definition finally_block :: "state \<Rightarrow> state" where
  "finally_block s =
     (let s1 = s\<lparr>predict_disabled := False\<rparr> in
      if model s1
      then (set_timer FaceCheck 500 s1)\<lparr>faceCheckInterval := Some (next_id s1)\<rparr>
      else s1)"

definition sendToServerForPrediction_resume :: "fetch_outcome \<Rightarrow> state \<Rightarrow> state" where
  "sendToServerForPrediction_resume out s = finally_block (catch_block (try_block out s))"

section \<open>The event loop\<close>

text \<open>
  One event is one task of the page's single thread. An event that the browser cannot
  deliver in the state at hand (a click on the disabled button, a timer that is not
  pending or not yet due, a \<open>stop\<close> event nobody queued, a response to no request)
  leaves the state as it is. A timer fires no earlier than its due time and as much
  later as the run says: that is the timers' drift. An interval is re-armed one period
  after the time it fired. The recorder changes its state through \<open>start()\<close> and
  \<open>stop()\<close> only: it does not end a recording on its own, and it delivers chunks
  while it records and until its \<open>stop\<close> event. The two awaits of
  \<open>sendToServerForPrediction\<close> are one step, since the function does nothing but
  test \<open>response.ok\<close> between them; the await of \<open>detectFace\<close> is a step of its
  own, since other handlers can run while the detection is under way.
\<close>

datatype event =
    ModelLoaded bool
  | CameraResult camera
  | MetadataLoaded bool
  | ReadyState nat
  | Advance nat
  | Fire nat
  | DetectionSettled detection
  | Click
  | DataAvailable blob
  | RecorderStopped
  | FetchSettled fetch_outcome

definition fire_timer :: "nat \<Rightarrow> timer_kind \<Rightarrow> state \<Rightarrow> state" where
  "fire_timer tid k s =
     (case k of
        FaceCheck \<Rightarrow>
          detectFace_call (s\<lparr>timers := (timers s)(tid \<mapsto> (now s + 500, FaceCheck))\<rparr>)
      | RejectRevert \<Rightarrow> reject_timeout (s\<lparr>timers := (timers s)(tid := None)\<rparr>)
      | CountdownTick c \<Rightarrow> countdown_tick tid c s
      | StopRecorder \<Rightarrow> stop_timeout (s\<lparr>timers := (timers s)(tid := None)\<rparr>))"

fun step :: "event \<Rightarrow> state \<Rightarrow> state" where
  "step (ModelLoaded b) s = (if phase s = LoadingModel then loadModel_resume b s else s)"
| "step (CameraResult r) s =
     (if phase s = RequestingCamera then initializeWebcam_resume r s else s)"
| "step (MetadataLoaded b) s =
     (if phase s = AwaitingMetadata then onloadedmetadata b s else s)"
| "step (ReadyState n) s = s\<lparr>readyState := n\<rparr>"
| "step (Advance d) s = s\<lparr>now := now s + d\<rparr>"
| "step (Fire tid) s =
     (case timers s tid of
        None \<Rightarrow> s
      | Some (due, k) \<Rightarrow> if now s < due then s else fire_timer tid k s)"
| "step (DetectionSettled d) s =
     (if detections s = 0 then s
      else detectFace_resume d (s\<lparr>detections := detections s - 1\<rparr>))"
| "step Click s = (if predict_disabled s then s else startMeasurement s)"
| "step (DataAvailable d) s =
     (if mediaRecorder s = Some Recording \<or> stop_pending s then ondataavailable d s else s)"
| "step RecorderStopped s =
     (if stop_pending s then onstop (s\<lparr>stop_pending := False\<rparr>) else s)"
| "step (FetchSettled out) s =
     (case fetches s of
        [] \<Rightarrow> s
      | b # bs \<Rightarrow> sendToServerForPrediction_resume out (s\<lparr>fetches := bs\<rparr>))"

fun run :: "event list \<Rightarrow> state \<Rightarrow> state" where
  "run [] s = s"
| "run (e # es) s = run es (step e s)"

section \<open>Where a run starts\<close>

text \<open>
  Modelled from the spec: the page's HTML is not part of the sources, so the indicator's
  initial class is taken from the data model, where the detection signal starts as
  \<open>Unknown\<close>: the class list of a fresh page does not hold \<open>green\<close>. Everything
  else in \<open>fresh\<close> is what the script's own declarations give (lines 15 to 18) and a
  browser that has not been asked for anything yet. The texts and the button's state
  that the HTML provides are left free.
\<close>

definition fresh :: "state \<Rightarrow> bool" where
  "fresh s =
     (mediaRecorder s = None \<and> recordedChunks s = [] \<and> faceCheckInterval s = None \<and>
      \<not> model s \<and> phase s = LoadingModel \<and> timers s = Map.empty \<and>
      detections s = 0 \<and> \<not> stop_pending s \<and> fetches s = [] \<and> calls s = [] \<and>
      \<not> classList_contains (face_class s) ''green'')"

inductive reachable :: "state \<Rightarrow> bool" where
  from_fresh: "fresh s \<Longrightarrow> reachable s"
| after_step: "reachable s \<Longrightarrow> reachable (step e s)"

text \<open>
  A fresh page for the examples: \<open>loadModel\<close> has written its first status line and
  awaits the model; the button is still disabled.
\<close>

definition loading_page :: state where
  "loading_page =
     \<lparr>status_text = ''Loading face detection model...'',
      face_text = [], face_class = ''status-indicator'',
      placeholder_display = ''block'', grid_display = ''none'',
      predict_disabled = True,
      hr_value = ''--'', bp_value = ''--'', stress_value = ''--'',
      mediaRecorder = None, recordedChunks = [], faceCheckInterval = None, model = False,
      phase = LoadingModel, readyState = 0, now = 0, next_id = 1, timers = Map.empty,
      detections = 0, stop_pending = False, fetches = [], calls = [], console = [],
      uncaught = []\<rparr>"

text \<open>
  The model loads, the camera is granted, the video's metadata arrives and the video
  has frames: the page is idle and polls.
\<close>

definition boot :: "event list" where
  "boot = [ModelLoaded True, CameraResult Granted, MetadataLoaded True, ReadyState 4]"


section \<open>Basic facts\<close>

lemma run_append: "run (es @ fs) s = run fs (run es s)"
  by (induction es arbitrary: s) simp_all

lemma reachable_run: "reachable s \<Longrightarrow> reachable (run es s)"
  by (induction es arbitrary: s) (simp_all add: reachable.after_step)

lemma green_tokens: "classList_contains ''status-indicator green'' ''green''"
  by code_simp

lemma red_tokens: "\<not> classList_contains ''status-indicator red'' ''green''"
  by code_simp

lemma plain_tokens: "\<not> classList_contains ''status-indicator'' ''green''"
  by code_simp

lemma fresh_loading_page: "fresh loading_page"
  by (simp add: fresh_def loading_page_def plain_tokens)

subsection \<open>Evaluating a run\<close>

lemma nat_digits_small: "n < 10 \<Longrightarrow> nat_digits n = [digit_char n]"
  by (simp add: nat_digits.simps)

lemma nat_digits_big:
  "\<not> n < 10 \<Longrightarrow> nat_digits n = nat_digits (n div 10) @ [digit_char (n mod 10)]"
  by (subst nat_digits.simps) simp

lemma digit_chars:
  "digit_char 0 = CHR ''0''" "digit_char 1 = CHR ''1''" "digit_char 2 = CHR ''2''"
  "digit_char 3 = CHR ''3''" "digit_char 4 = CHR ''4''" "digit_char 5 = CHR ''5''"
  "digit_char 6 = CHR ''6''" "digit_char 7 = CHR ''7''" "digit_char 8 = CHR ''8''"
  "digit_char 9 = CHR ''9''" "digit_char (Suc 0) = CHR ''1''"
  by code_simp+

lemma replicate_num: "replicate (numeral k) x = x # replicate (pred_numeral k) x"
  by (simp add: numeral_eq_Suc)

lemmas print_defs =
  recording_message_def number_to_string_def nat_digits_small nat_digits_big digit_chars

lemmas handler_defs =
  loadModel_resume_def initializeWebcam_resume_def onloadedmetadata_def set_timer_def
  clearInterval_def detectFace_call_def detectFace_resume_def recorder_start_def
  startMeasurement_def reject_timeout_def countdown_tick_def stop_timeout_def
  ondataavailable_def sendToServerForPrediction_def onstop_def displayResults_def
  try_block_def catch_block_def finally_block_def sendToServerForPrediction_resume_def
  fire_timer_def measurementDuration_def Let_def

lemmas run_defs =
  boot_def loading_page_def handler_defs print_defs green_tokens red_tokens plain_tokens
  replicate_num

section \<open>C4: the stress level\<close>




section \<open>What holds in every reachable state\<close>

definition face_green :: "state \<Rightarrow> bool" where
  "face_green s = classList_contains (face_class s) ''green''"

text \<open>
  A session is under way from the accepted request until the response has been handled:
  the recorder records, or its \<open>stop\<close> event is still to come, or the request is in
  flight.
\<close>

definition in_session :: "state \<Rightarrow> bool" where
  "in_session s = (mediaRecorder s = Some Recording \<or> stop_pending s \<or> fetches s \<noteq> [])"

definition n_starts :: "state \<Rightarrow> nat" where
  "n_starts s = length (filter (\<lambda>c. c = RecorderStart) (calls s))"

fun is_fetch :: "call \<Rightarrow> bool" where
  "is_fetch (Fetch u m f n b) = True"
| "is_fetch EstimateFaces = False"
| "is_fetch RecorderStart = False"
| "is_fetch RecorderStop = False"

definition n_fetches :: "state \<Rightarrow> nat" where
  "n_fetches s = length (filter is_fetch (calls s))"

text \<open>Timer ids are never reused: no id from \<open>next_id\<close> on is pending.\<close>

definition ids_fresh :: "state \<Rightarrow> bool" where
  "ids_fresh s = (\<forall>tid. next_id s \<le> tid \<longrightarrow> timers s tid = None)"

text \<open>The only polling interval that can be pending is the one \<open>faceCheckInterval\<close> names.\<close>

definition poll_handle :: "state \<Rightarrow> bool" where
  "poll_handle s =
     (\<forall>tid due. timers s tid = Some (due, FaceCheck) \<longrightarrow> faceCheckInterval s = Some tid)"

text \<open>During a session the button is disabled, the model is loaded and nothing polls.\<close>

definition session_quiet :: "state \<Rightarrow> bool" where
  "session_quiet s =
     (in_session s \<longrightarrow>
        predict_disabled s \<and> model s \<and> (\<forall>tid due. timers s tid \<noteq> Some (due, FaceCheck)))"

text \<open>
  A green indicator, a detection in flight and a pending poll all stem from a poll that
  found the model loaded, and polling starts only once the recorder exists.
\<close>

definition polls_need_model :: "state \<Rightarrow> bool" where
  "polls_need_model s =
     ((face_green s \<longrightarrow> model s \<and> mediaRecorder s \<noteq> None) \<and>
      (0 < detections s \<longrightarrow> model s \<and> mediaRecorder s \<noteq> None) \<and>
      (\<forall>tid due. timers s tid = Some (due, FaceCheck) \<longrightarrow>
         model s \<and> mediaRecorder s \<noteq> None))"

definition recorder_started :: "state \<Rightarrow> bool" where
  "recorder_started s = (mediaRecorder s \<noteq> None \<longrightarrow> phase s = Started)"

text \<open>A stop timer is pending only while the recorder records, and then only one.\<close>

definition stop_timer_ok :: "state \<Rightarrow> bool" where
  "stop_timer_ok s =
     ((\<forall>tid due. timers s tid = Some (due, StopRecorder) \<longrightarrow>
         mediaRecorder s = Some Recording) \<and>
      (\<forall>t1 t2 d1 d2. timers s t1 = Some (d1, StopRecorder) \<and>
          timers s t2 = Some (d2, StopRecorder) \<longrightarrow> t1 = t2))"

text \<open>Recording, awaiting the \<open>stop\<close> event and awaiting the response exclude each other.\<close>

definition one_stage :: "state \<Rightarrow> bool" where
  "one_stage s =
     (case mediaRecorder s of
        None \<Rightarrow> \<not> stop_pending s \<and> fetches s = []
      | Some Recording \<Rightarrow> \<not> stop_pending s \<and> fetches s = []
      | Some Inactive \<Rightarrow> if stop_pending s then fetches s = [] else length (fetches s) \<le> 1)"

definition chunks_ok :: "state \<Rightarrow> bool" where
  "chunks_ok s =
     (mediaRecorder s \<noteq> Some Recording \<and> \<not> stop_pending s \<longrightarrow> recordedChunks s = [])"

text \<open>Every recording started has led to one request, but for the one still under way.\<close>

definition calls_ok :: "state \<Rightarrow> bool" where
  "calls_ok s =
     (n_starts s =
        n_fetches s + (if mediaRecorder s = Some Recording \<or> stop_pending s then 1 else 0))"

definition page_inv :: "state \<Rightarrow> bool" where
  "page_inv s =
     (ids_fresh s \<and> poll_handle s \<and> session_quiet s \<and> polls_need_model s \<and>
      recorder_started s \<and> stop_timer_ok s \<and> one_stage s \<and> chunks_ok s \<and> calls_ok s)"

subsection \<open>What the handlers leave alone\<close>

lemma displayResults_frame:
  "mediaRecorder (snd (displayResults d s)) = mediaRecorder s"
  "stop_pending (snd (displayResults d s)) = stop_pending s"
  "fetches (snd (displayResults d s)) = fetches s"
  "calls (snd (displayResults d s)) = calls s"
  "timers (snd (displayResults d s)) = timers s"
  "next_id (snd (displayResults d s)) = next_id s"
  "now (snd (displayResults d s)) = now s"
  "model (snd (displayResults d s)) = model s"
  "phase (snd (displayResults d s)) = phase s"
  "detections (snd (displayResults d s)) = detections s"
  "face_class (snd (displayResults d s)) = face_class s"
  "face_text (snd (displayResults d s)) = face_text s"
  "recordedChunks (snd (displayResults d s)) = recordedChunks s"
  "faceCheckInterval (snd (displayResults d s)) = faceCheckInterval s"
  "predict_disabled (snd (displayResults d s)) = predict_disabled s"
  "uncaught (snd (displayResults d s)) = uncaught s"
  by (simp_all add: displayResults_def Let_def split: sum.splits)

lemma try_block_frame:
  "mediaRecorder (snd (try_block out s)) = mediaRecorder s"
  "stop_pending (snd (try_block out s)) = stop_pending s"
  "fetches (snd (try_block out s)) = fetches s"
  "calls (snd (try_block out s)) = calls s"
  "timers (snd (try_block out s)) = timers s"
  "next_id (snd (try_block out s)) = next_id s"
  "now (snd (try_block out s)) = now s"
  "model (snd (try_block out s)) = model s"
  "phase (snd (try_block out s)) = phase s"
  "detections (snd (try_block out s)) = detections s"
  "face_class (snd (try_block out s)) = face_class s"
  "face_text (snd (try_block out s)) = face_text s"
  "recordedChunks (snd (try_block out s)) = recordedChunks s"
  "faceCheckInterval (snd (try_block out s)) = faceCheckInterval s"
  "predict_disabled (snd (try_block out s)) = predict_disabled s"
  "uncaught (snd (try_block out s)) = uncaught s"
  by (simp_all add: try_block_def Let_def displayResults_frame
      split: fetch_outcome.splits body.splits sum.splits)

lemma catch_block_frame:
  "mediaRecorder (catch_block r) = mediaRecorder (snd r)"
  "stop_pending (catch_block r) = stop_pending (snd r)"
  "fetches (catch_block r) = fetches (snd r)"
  "calls (catch_block r) = calls (snd r)"
  "timers (catch_block r) = timers (snd r)"
  "next_id (catch_block r) = next_id (snd r)"
  "now (catch_block r) = now (snd r)"
  "model (catch_block r) = model (snd r)"
  "phase (catch_block r) = phase (snd r)"
  "detections (catch_block r) = detections (snd r)"
  "face_class (catch_block r) = face_class (snd r)"
  "face_text (catch_block r) = face_text (snd r)"
  "recordedChunks (catch_block r) = recordedChunks (snd r)"
  "faceCheckInterval (catch_block r) = faceCheckInterval (snd r)"
  "predict_disabled (catch_block r) = predict_disabled (snd r)"
  "uncaught (catch_block r) = uncaught (snd r)"
  by (simp_all add: catch_block_def split: prod.splits option.splits)

text \<open>
  The whole of the resumed \<open>sendToServerForPrediction\<close>, as far as the session is
  concerned: the button is enabled and, the model being loaded, a new polling interval
  is set.
\<close>

lemma resume_frame:
  "mediaRecorder (sendToServerForPrediction_resume out s) = mediaRecorder s"
  "stop_pending (sendToServerForPrediction_resume out s) = stop_pending s"
  "fetches (sendToServerForPrediction_resume out s) = fetches s"
  "calls (sendToServerForPrediction_resume out s) = calls s"
  "model (sendToServerForPrediction_resume out s) = model s"
  "phase (sendToServerForPrediction_resume out s) = phase s"
  "now (sendToServerForPrediction_resume out s) = now s"
  "detections (sendToServerForPrediction_resume out s) = detections s"
  "face_class (sendToServerForPrediction_resume out s) = face_class s"
  "face_text (sendToServerForPrediction_resume out s) = face_text s"
  "recordedChunks (sendToServerForPrediction_resume out s) = recordedChunks s"
  "uncaught (sendToServerForPrediction_resume out s) = uncaught s"
  "predict_disabled (sendToServerForPrediction_resume out s) = False"
  by (simp_all add: sendToServerForPrediction_resume_def finally_block_def set_timer_def
      Let_def catch_block_frame try_block_frame)

lemma resume_timers:
  "timers (sendToServerForPrediction_resume out s) =
     (if model s then (timers s)(next_id s \<mapsto> (now s + 500, FaceCheck)) else timers s)"
  "next_id (sendToServerForPrediction_resume out s) =
     (if model s then next_id s + 1 else next_id s)"
  "faceCheckInterval (sendToServerForPrediction_resume out s) =
     (if model s then Some (next_id s) else faceCheckInterval s)"
  by (simp_all add: sendToServerForPrediction_resume_def finally_block_def set_timer_def
      Let_def catch_block_frame try_block_frame)

subsection \<open>Each part of the invariant is kept by every event\<close>

lemma enabled_idle:
  "session_quiet s \<Longrightarrow> \<not> predict_disabled s \<Longrightarrow>
     mediaRecorder s \<noteq> Some Recording \<and> \<not> stop_pending s \<and> fetches s = []"
  by (auto simp: session_quiet_def in_session_def)

lemma not_started_idle:
  "recorder_started s \<Longrightarrow> one_stage s \<Longrightarrow> phase s \<noteq> Started \<Longrightarrow>
     mediaRecorder s = None \<and> \<not> stop_pending s \<and> fetches s = []"
  by (auto simp: recorder_started_def one_stage_def split: option.splits)

lemma submitting_stage:
  "one_stage s \<Longrightarrow> fetches s = b # bs \<Longrightarrow>
     mediaRecorder s = Some Inactive \<and> \<not> stop_pending s \<and> bs = []"
  by (auto simp: one_stage_def split: option.splits rec_state.splits if_splits)

lemma fresh_page_inv: "fresh s \<Longrightarrow> page_inv s"
  by (simp add: fresh_def page_inv_def ids_fresh_def poll_handle_def session_quiet_def
      polls_need_model_def recorder_started_def stop_timer_ok_def one_stage_def chunks_ok_def
      calls_ok_def in_session_def face_green_def n_starts_def n_fetches_def)

lemma ids_fresh_step:
  assumes "ids_fresh s"
  shows "ids_fresh (step e s)"
proof (cases e)
  case (Fire tid)
  then show ?thesis using assms
    by (auto simp: ids_fresh_def fire_timer_def detectFace_call_def reject_timeout_def
        countdown_tick_def clearInterval_def stop_timeout_def Let_def
        split: option.splits timer_kind.splits rec_state.splits if_splits)
next
  case Click
  then show ?thesis using assms
    by (auto simp: ids_fresh_def startMeasurement_def set_timer_def clearInterval_def
        recorder_start_def Let_def split: option.splits rec_state.splits if_splits)
next
  case (FetchSettled out)
  then show ?thesis using assms
    by (auto simp: ids_fresh_def resume_frame resume_timers split: list.splits if_splits)
qed (use assms in \<open>auto simp: ids_fresh_def loadModel_resume_def initializeWebcam_resume_def
      onloadedmetadata_def set_timer_def detectFace_resume_def ondataavailable_def onstop_def
      sendToServerForPrediction_def Let_def split: camera.splits detection.splits\<close>)

lemma poll_handle_step:
  assumes "poll_handle s" "session_quiet s" "polls_need_model s" "recorder_started s"
  shows "poll_handle (step e s)"
proof (cases e)
  case (MetadataLoaded b)
  then show ?thesis using assms(1,3,4)
    by (auto simp: poll_handle_def polls_need_model_def recorder_started_def
        onloadedmetadata_def set_timer_def Let_def)
next
  case (Fire tid)
  then show ?thesis using assms(1)
    by (auto simp: poll_handle_def fire_timer_def detectFace_call_def reject_timeout_def
        countdown_tick_def clearInterval_def stop_timeout_def Let_def
        split: option.splits timer_kind.splits rec_state.splits if_splits)
next
  case Click
  then show ?thesis using assms(1)
    by (auto simp: poll_handle_def startMeasurement_def set_timer_def clearInterval_def
        recorder_start_def Let_def split: option.splits rec_state.splits if_splits)
next
  case (FetchSettled out)
  then show ?thesis using assms(1,2)
    by (auto simp: poll_handle_def session_quiet_def in_session_def resume_frame
        resume_timers split: list.splits if_splits)
qed (use assms(1) in \<open>auto simp: poll_handle_def loadModel_resume_def
      initializeWebcam_resume_def detectFace_resume_def ondataavailable_def onstop_def
      sendToServerForPrediction_def Let_def split: camera.splits detection.splits\<close>)

lemma recorder_started_step:
  assumes "recorder_started s"
  shows "recorder_started (step e s)"
proof (cases e)
  case (Fire tid)
  then show ?thesis using assms
    by (auto simp: recorder_started_def fire_timer_def detectFace_call_def reject_timeout_def
        countdown_tick_def clearInterval_def stop_timeout_def Let_def
        split: option.splits timer_kind.splits rec_state.splits if_splits)
next
  case Click
  then show ?thesis using assms
    by (auto simp: recorder_started_def startMeasurement_def set_timer_def clearInterval_def
        recorder_start_def Let_def split: option.splits rec_state.splits if_splits)
next
  case (FetchSettled out)
  then show ?thesis using assms
    by (auto simp: recorder_started_def resume_frame split: list.splits)
qed (use assms in \<open>auto simp: recorder_started_def loadModel_resume_def
      initializeWebcam_resume_def onloadedmetadata_def set_timer_def detectFace_resume_def
      ondataavailable_def onstop_def sendToServerForPrediction_def Let_def
      split: camera.splits detection.splits\<close>)

lemma one_stage_step:
  assumes "one_stage s" "session_quiet s" "recorder_started s"
  shows "one_stage (step e s)"
proof (cases e)
  case (MetadataLoaded b)
  then show ?thesis using assms(1) not_started_idle [OF assms(3,1)]
    by (auto simp: one_stage_def onloadedmetadata_def set_timer_def Let_def)
next
  case (Fire tid)
  then show ?thesis using assms(1)
    by (auto simp: one_stage_def fire_timer_def detectFace_call_def reject_timeout_def
        countdown_tick_def clearInterval_def stop_timeout_def Let_def
        split: option.splits timer_kind.splits rec_state.splits if_splits)
next
  case Click
  show ?thesis
  proof (cases "predict_disabled s")
    case True
    then show ?thesis using Click assms(1) by simp
  next
    case False
    then show ?thesis using Click assms(1) enabled_idle [OF assms(2) False]
      by (auto simp: one_stage_def startMeasurement_def set_timer_def clearInterval_def
          recorder_start_def Let_def split: option.splits rec_state.splits if_splits)
  qed
next
  case RecorderStopped
  then show ?thesis using assms(1)
    by (auto simp: one_stage_def onstop_def sendToServerForPrediction_def Let_def
        split: option.splits rec_state.splits if_splits)
next
  case (FetchSettled out)
  show ?thesis
  proof (cases "fetches s")
    case Nil
    then show ?thesis using FetchSettled assms(1) by simp
  next
    case (Cons b bs)
    then show ?thesis using FetchSettled submitting_stage [OF assms(1) Cons]
      by (simp add: one_stage_def resume_frame)
  qed
qed (use assms(1) in \<open>auto simp: one_stage_def loadModel_resume_def
      initializeWebcam_resume_def detectFace_resume_def ondataavailable_def
      split: camera.splits detection.splits option.splits rec_state.splits\<close>)

lemma stop_timer_ok_step:
  assumes "stop_timer_ok s" "session_quiet s" "recorder_started s"
  shows "stop_timer_ok (step e s)"
proof (cases e)
  case (MetadataLoaded b)
  then show ?thesis using assms(1,3)
    by (auto simp: stop_timer_ok_def recorder_started_def onloadedmetadata_def set_timer_def
        Let_def)
next
  case (Fire tid)
  then show ?thesis using assms(1)
    by (auto simp: stop_timer_ok_def fire_timer_def detectFace_call_def reject_timeout_def
        countdown_tick_def clearInterval_def stop_timeout_def Let_def
        split: option.splits timer_kind.splits rec_state.splits if_splits)
next
  case Click
  show ?thesis
  proof (cases "predict_disabled s")
    case True
    then show ?thesis using Click assms(1) by simp
  next
    case False
    with assms(2) have idle: "mediaRecorder s \<noteq> Some Recording"
      using enabled_idle by blast
    with assms(1) have none: "\<And>tid due. timers s tid \<noteq> Some (due, StopRecorder)"
      by (auto simp: stop_timer_ok_def)
    show ?thesis using Click False idle none
      by (auto simp: stop_timer_ok_def startMeasurement_def set_timer_def clearInterval_def
          recorder_start_def Let_def split: option.splits rec_state.splits if_splits)
  qed
next
  case (FetchSettled out)
  then show ?thesis using assms(1)
    by (auto simp: stop_timer_ok_def resume_frame resume_timers split: list.splits if_splits)
qed (use assms(1) in \<open>auto simp: stop_timer_ok_def loadModel_resume_def
      initializeWebcam_resume_def detectFace_resume_def ondataavailable_def onstop_def
      sendToServerForPrediction_def Let_def split: camera.splits detection.splits\<close>)

lemma chunks_ok_step:
  assumes "chunks_ok s" "one_stage s" "recorder_started s"
  shows "chunks_ok (step e s)"
proof (cases e)
  case (MetadataLoaded b)
  then show ?thesis using assms(1) not_started_idle [OF assms(3,2)]
    by (auto simp: chunks_ok_def onloadedmetadata_def set_timer_def Let_def)
next
  case (Fire tid)
  then show ?thesis using assms(1)
    by (auto simp: chunks_ok_def fire_timer_def detectFace_call_def reject_timeout_def
        countdown_tick_def clearInterval_def stop_timeout_def Let_def
        split: option.splits timer_kind.splits rec_state.splits if_splits)
next
  case Click
  then show ?thesis using assms(1)
    by (auto simp: chunks_ok_def startMeasurement_def set_timer_def clearInterval_def
        recorder_start_def Let_def split: option.splits rec_state.splits if_splits)
next
  case (FetchSettled out)
  then show ?thesis using assms(1)
    by (auto simp: chunks_ok_def resume_frame split: list.splits)
qed (use assms(1) in \<open>auto simp: chunks_ok_def loadModel_resume_def
      initializeWebcam_resume_def detectFace_resume_def ondataavailable_def onstop_def
      sendToServerForPrediction_def Let_def split: camera.splits detection.splits\<close>)

lemma session_quiet_step:
  assumes "session_quiet s" "poll_handle s" "polls_need_model s" "recorder_started s"
    "one_stage s"
  shows "session_quiet (step e s)"
proof (cases e)
  case (MetadataLoaded b)
  then show ?thesis using assms(1) not_started_idle [OF assms(4,5)]
    by (auto simp: session_quiet_def in_session_def onloadedmetadata_def set_timer_def Let_def)
next
  case (Fire tid)
  then show ?thesis using assms(1)
    by (auto simp: session_quiet_def in_session_def fire_timer_def detectFace_call_def
        reject_timeout_def countdown_tick_def clearInterval_def stop_timeout_def Let_def
        split: option.splits timer_kind.splits rec_state.splits if_splits)
next
  case Click
  show ?thesis
  proof (cases "predict_disabled s")
    case True
    then show ?thesis using Click assms(1) by simp
  next
    case False
    note idle = enabled_idle [OF assms(1) False]
    show ?thesis
    proof (cases "face_green s")
      case True
      with assms(3) have m: "model s" by (simp add: polls_need_model_def)
      from assms(2) have p: "\<And>tid due. timers s tid = Some (due, FaceCheck) \<Longrightarrow>
          faceCheckInterval s = Some tid"
        by (simp add: poll_handle_def)
      show ?thesis using Click False True idle m p
        by (auto simp: session_quiet_def in_session_def face_green_def startMeasurement_def
            set_timer_def clearInterval_def recorder_start_def Let_def
            split: option.splits rec_state.splits if_splits)
    next
      case notgreen: False
      then show ?thesis using Click False idle
        by (simp add: session_quiet_def in_session_def face_green_def startMeasurement_def
            set_timer_def)
    qed
  qed
next
  case RecorderStopped
  then show ?thesis using assms(1)
    by (auto simp: session_quiet_def in_session_def onstop_def sendToServerForPrediction_def
        Let_def)
next
  case (FetchSettled out)
  show ?thesis
  proof (cases "fetches s")
    case Nil
    then show ?thesis using FetchSettled assms(1) by simp
  next
    case (Cons b bs)
    then show ?thesis using FetchSettled submitting_stage [OF assms(5) Cons]
      by (simp add: session_quiet_def in_session_def resume_frame)
  qed
qed (use assms(1) in \<open>auto simp: session_quiet_def in_session_def loadModel_resume_def
      initializeWebcam_resume_def detectFace_resume_def ondataavailable_def
      split: camera.splits detection.splits\<close>)

lemma polls_need_model_step:
  assumes "polls_need_model s" "one_stage s"
  shows "polls_need_model (step e s)"
proof (cases e)
  case (MetadataLoaded b)
  then show ?thesis using assms(1)
    by (auto simp: polls_need_model_def face_green_def onloadedmetadata_def set_timer_def
        Let_def)
next
  case (Fire tid)
  then show ?thesis using assms(1)
    by (auto simp: polls_need_model_def face_green_def fire_timer_def detectFace_call_def
        reject_timeout_def countdown_tick_def clearInterval_def stop_timeout_def Let_def
        split: option.splits timer_kind.splits rec_state.splits if_splits)
next
  case (DetectionSettled d)
  then show ?thesis using assms(1)
    by (auto simp: polls_need_model_def face_green_def detectFace_resume_def
        split: detection.splits)
next
  case Click
  then show ?thesis using assms(1)
    by (auto simp: polls_need_model_def face_green_def startMeasurement_def set_timer_def
        clearInterval_def recorder_start_def Let_def
        split: option.splits rec_state.splits if_splits)
next
  case (FetchSettled out)
  show ?thesis
  proof (cases "fetches s")
    case Nil
    then show ?thesis using FetchSettled assms(1) by simp
  next
    case (Cons b bs)
    then show ?thesis using FetchSettled assms(1) submitting_stage [OF assms(2) Cons]
      by (auto simp: polls_need_model_def face_green_def resume_frame resume_timers
          split: if_splits)
  qed
qed (use assms(1) in \<open>auto simp: polls_need_model_def face_green_def loadModel_resume_def
      initializeWebcam_resume_def ondataavailable_def onstop_def
      sendToServerForPrediction_def Let_def split: camera.splits\<close>)

lemma calls_ok_step:
  assumes "calls_ok s" "one_stage s" "session_quiet s" "recorder_started s"
  shows "calls_ok (step e s)"
proof (cases e)
  case (MetadataLoaded b)
  then show ?thesis using assms(1) not_started_idle [OF assms(4,2)]
    by (auto simp: calls_ok_def n_starts_def n_fetches_def onloadedmetadata_def set_timer_def
        Let_def)
next
  case (Fire tid)
  have st: "calls_ok (stop_timeout t)" if "calls_ok t" for t
    using that
    by (auto simp: calls_ok_def n_starts_def n_fetches_def stop_timeout_def
        split: option.splits rec_state.splits if_splits)
  have rm: "calls_ok (t\<lparr>timers := m\<rparr>)" if "calls_ok t" for t m
    using that by (simp add: calls_ok_def n_starts_def n_fetches_def)
  show ?thesis
  proof (cases "timers s tid")
    case None
    then show ?thesis using Fire assms(1) by simp
  next
    case (Some a)
    obtain due k where a: "a = (due, k)" by (cases a)
    show ?thesis
    proof (cases k)
      case FaceCheck
      then show ?thesis using Fire Some a assms(1)
        by (simp add: fire_timer_def calls_ok_def n_starts_def n_fetches_def
            detectFace_call_def)
    next
      case RejectRevert
      then show ?thesis using Fire Some a assms(1)
        by (simp add: fire_timer_def calls_ok_def n_starts_def n_fetches_def
            reject_timeout_def)
    next
      case (CountdownTick c)
      then show ?thesis using Fire Some a assms(1)
        by (simp add: fire_timer_def calls_ok_def n_starts_def n_fetches_def
            countdown_tick_def clearInterval_def Let_def)
    next
      case StopRecorder
      then show ?thesis using Fire Some a assms(1) st rm
        by (simp add: fire_timer_def)
    qed
  qed
next
  case Click
  show ?thesis
  proof (cases "predict_disabled s")
    case True
    then show ?thesis using Click assms(1) by simp
  next
    case False
    then show ?thesis using Click assms(1) enabled_idle [OF assms(3) False]
      by (auto simp: calls_ok_def n_starts_def n_fetches_def startMeasurement_def
          set_timer_def clearInterval_def recorder_start_def Let_def
          split: option.splits rec_state.splits)
  qed
next
  case RecorderStopped
  then show ?thesis using assms(1,2)
    by (auto simp: calls_ok_def n_starts_def n_fetches_def one_stage_def onstop_def
        sendToServerForPrediction_def Let_def split: option.splits rec_state.splits if_splits)
next
  case (FetchSettled out)
  then show ?thesis using assms(1)
    by (auto simp: calls_ok_def n_starts_def n_fetches_def resume_frame split: list.splits)
qed (use assms(1) in \<open>auto simp: calls_ok_def n_starts_def n_fetches_def loadModel_resume_def
      initializeWebcam_resume_def detectFace_resume_def ondataavailable_def
      split: camera.splits detection.splits\<close>)

lemma page_inv_step:
  assumes "page_inv s"
  shows "page_inv (step e s)"
proof -
  from assms have a: "ids_fresh s" "poll_handle s" "session_quiet s" "polls_need_model s"
    "recorder_started s" "stop_timer_ok s" "one_stage s" "chunks_ok s" "calls_ok s"
    by (simp_all add: page_inv_def)
  show ?thesis
    unfolding page_inv_def
    using ids_fresh_step [OF a(1)] poll_handle_step [OF a(2,3,4,5)]
      session_quiet_step [OF a(3,2,4,5,7)] polls_need_model_step [OF a(4,7)]
      recorder_started_step [OF a(5)] stop_timer_ok_step [OF a(6,3,5)]
      one_stage_step [OF a(7,3,5)] chunks_ok_step [OF a(8,7,5)]
      calls_ok_step [OF a(9,7,3,5)]
    by blast
qed

lemma reachable_page_inv: "reachable s \<Longrightarrow> page_inv s"
  by (induction rule: reachable.induct) (simp_all add: fresh_page_inv page_inv_step)

lemma page_inv_run: "page_inv s \<Longrightarrow> page_inv (run es s)"
  by (induction es arbitrary: s) (simp_all add: page_inv_step)

section \<open>C5: the face indicator follows the last successful detection\<close>

text \<open>
  A poll is the \<open>readyState\<close> the video has at the tick and what \<open>estimateFaces\<close>
  does. It is a successful detection when the model is loaded, the video has data and
  the call yields its list of regions.
\<close>

type_synonym poll = "nat \<times> detection"

definition poll_tick :: "poll \<Rightarrow> state \<Rightarrow> state" where
  "poll_tick p s = detectFace (snd p) (s\<lparr>readyState := fst p\<rparr>)"

fun polls :: "poll list \<Rightarrow> state \<Rightarrow> state" where
  "polls [] s = s"
| "polls (p # ps) s = polls ps (poll_tick p s)"

fun detects :: "bool \<Rightarrow> poll \<Rightarrow> bool" where
  "detects m (r, Regions n) = (m \<and> 2 \<le> r)"
| "detects m (r, DetectError e) = False"

fun regions :: "poll \<Rightarrow> nat" where
  "regions (r, Regions n) = n"
| "regions (r, DetectError e) = 0"

lemma polls_snoc: "polls (ps @ [p]) s = poll_tick p (polls ps s)"
  by (induction ps arbitrary: s) simp_all

lemma poll_tick_frame:
  "model (poll_tick p s) = model s"
  "uncaught (poll_tick p s) = uncaught s"
  "status_text (poll_tick p s) = status_text s"
  "predict_disabled (poll_tick p s) = predict_disabled s"
  "mediaRecorder (poll_tick p s) = mediaRecorder s"
  "timers (poll_tick p s) = timers s"
  by (simp_all add: poll_tick_def detectFace_def detectFace_resume_def
      split: detection.splits)

lemma polls_frame:
  "model (polls ps s) = model s \<and> uncaught (polls ps s) = uncaught s \<and>
   status_text (polls ps s) = status_text s \<and>
   predict_disabled (polls ps s) = predict_disabled s \<and>
   mediaRecorder (polls ps s) = mediaRecorder s \<and> timers (polls ps s) = timers s"
  by (induction ps arbitrary: s) (simp_all add: poll_tick_frame)

lemma poll_tick_indicator:
  "face_class (poll_tick p s) =
     (if detects (model s) p
      then (if 0 < regions p then ''status-indicator green'' else ''status-indicator red'')
      else face_class s)"
  "face_text (poll_tick p s) =
     (if detects (model s) p
      then (if 0 < regions p then ''Face Detected'' else ''No Face Detected'')
      else face_text s)"
  by (cases p; cases "snd p";
      simp add: poll_tick_def detectFace_def detectFace_resume_def)+

lemma polls_indicator:
  "face_class (polls ps s) =
     (case filter (detects (model s)) ps of
        [] \<Rightarrow> face_class s
      | q # qs \<Rightarrow>
          if 0 < regions (last (q # qs)) then ''status-indicator green''
          else ''status-indicator red'')"
proof (induction ps rule: rev_induct)
  case Nil
  then show ?case by simp
next
  case (snoc p ps)
  show ?case
  proof (cases "detects (model s) p")
    case True
    then show ?thesis
      by (cases "filter (detects (model s)) ps")
        (simp_all add: polls_snoc poll_tick_indicator polls_frame)
  next
    case False
    then show ?thesis
      using snoc by (simp add: polls_snoc poll_tick_indicator polls_frame)
  qed
qed

text \<open>
  C5. After any sequence of polls the indicator shows the outcome of the most recent
  successful detection, green exactly when that detection yielded at least one region,
  and is as before when there was none. A poll at which the video is not ready or the
  model is not loaded changes nothing (but the \<open>readyState\<close> the video has); a poll
  whose detection throws leaves the indicator as it was; no poll leaves an exception
  uncaught or touches the status line, the button, the recorder or the timers. The
  same holds when detections settle out of step with the ticks: a settled detection
  sets the indicator by its regions, and a failed one leaves it.
\<close>

theorem C5_indicator_follows_polls:
  "face_green (polls ps s) =
     (case filter (detects (model s)) ps of
        [] \<Rightarrow> face_green s
      | q # qs \<Rightarrow> 0 < regions (last (q # qs))) \<and>
   (\<not> model s \<or> fst p < 2 \<longrightarrow> poll_tick p s = s\<lparr>readyState := fst p\<rparr>) \<and>
   face_class (poll_tick (r, DetectError e) s) = face_class s \<and>
   face_text (poll_tick (r, DetectError e) s) = face_text s \<and>
   uncaught (polls ps s) = uncaught s \<and>
   status_text (polls ps s) = status_text s \<and>
   predict_disabled (polls ps s) = predict_disabled s \<and>
   mediaRecorder (polls ps s) = mediaRecorder s \<and>
   timers (polls ps s) = timers s \<and>
   (0 < detections s \<longrightarrow>
      face_green (step (DetectionSettled (Regions n)) s) = (0 < n) \<and>
      face_green (step (DetectionSettled (DetectError e)) s) = face_green s \<and>
      uncaught (step (DetectionSettled d) s) = uncaught s)"
proof -
  have "face_green (polls ps s) =
     (case filter (detects (model s)) ps of
        [] \<Rightarrow> face_green s
      | q # qs \<Rightarrow> 0 < regions (last (q # qs)))"
    unfolding face_green_def polls_indicator
    by (simp add: green_tokens red_tokens split: list.splits)
  moreover have "\<not> model s \<or> fst p < 2 \<longrightarrow> poll_tick p s = s\<lparr>readyState := fst p\<rparr>"
    by (auto simp: poll_tick_def detectFace_def)
  moreover have "0 < detections s \<longrightarrow>
      face_green (step (DetectionSettled (Regions n)) s) = (0 < n) \<and>
      face_green (step (DetectionSettled (DetectError e)) s) = face_green s \<and>
      uncaught (step (DetectionSettled d) s) = uncaught s"
    by (simp add: face_green_def detectFace_resume_def green_tokens red_tokens
        split: detection.splits)
  ultimately show ?thesis
    by (simp add: poll_tick_indicator polls_frame)
qed

theorem C5_indicator_follows_polls_witness:
  "face_green
     (polls [(4, Regions 0), (4, Regions 2), (1, Regions 0), (4, DetectError (JsError [] []))]
        (run boot loading_page)) \<and>
   \<not> face_green (polls [(4, Regions 2), (4, Regions 0)] (run boot loading_page)) \<and>
   0 < detections (run (boot @ [Advance 500, Fire 1]) loading_page) \<and>
   face_green
     (step (DetectionSettled (Regions 1)) (run (boot @ [Advance 500, Fire 1]) loading_page))"
proof -
  have m: "model (run boot loading_page)"
    by (simp add: run_defs)
  have d: "0 < detections (run (boot @ [Advance 500, Fire 1]) loading_page)"
    by (simp add: run_defs)
  show ?thesis
    using
      C5_indicator_follows_polls [of
        "[(4, Regions 0), (4, Regions 2), (1, Regions 0), (4, DetectError (JsError [] []))]"
        "run boot loading_page"]
      C5_indicator_follows_polls [of "[(4, Regions 2), (4, Regions 0)]"
        "run boot loading_page"]
      C5_indicator_follows_polls [of "[]" "run (boot @ [Advance 500, Fire 1]) loading_page"
        _ _ _ 1]
      m d
    by simp
qed

section \<open>A measurement, event by event\<close>

text \<open>
  The face is found at the first poll and the button is clicked at 500 ms. The countdown
  interval has id 2 and the stop timeout id 3. All thirty ticks come on time, the stop
  timeout fires at 30500 ms, the recorder hands over one chunk and reports its stop:
  the request is in flight.
\<close>

definition measurement :: "event list" where
  "measurement =
     boot @ [Advance 500, Fire 1, DetectionSettled (Regions 1), Click] @
     concat (replicate 30 [Advance 1000, Fire 2]) @
     [Fire 3, DataAvailable [1, 2, 3], RecorderStopped]"

lemma measurement_state:
  "fetches (run measurement loading_page) = [[1, 2, 3]]"
  "model (run measurement loading_page)"
  "predict_disabled (run measurement loading_page)"
  "status_text (run measurement loading_page) = ''Processing... Please wait.''"
  "grid_display (run measurement loading_page) = ''none''"
  "placeholder_display (run measurement loading_page) = ''block''"
  "hr_value (run measurement loading_page) = ''--''"
  "now (run measurement loading_page) = 30500"
  "next_id (run measurement loading_page) = 4"
  by (simp_all add: measurement_def run_defs)

lemma reachable_loading_run: "reachable (run es loading_page)"
  by (simp add: reachable_run reachable.from_fresh fresh_loading_page)

section \<open>C9: stopping twice, stopping when idle\<close>

text \<open>
  C9. \<open>clearInterval(faceCheckInterval)\<close> done a second time changes nothing more than
  the first and raises nothing, whatever the handle; and when the stop timeout finds the
  recorder inactive it does not call \<open>stop()\<close>: the state stays as it is, so no \<open>stop\<close>
  event, no payload and no request follow. Fired through the event loop, only the
  timeout's own entry disappears.
\<close>

theorem C9_stop_idempotent:
  "clearInterval (faceCheckInterval s) (clearInterval (faceCheckInterval s) s) =
     clearInterval (faceCheckInterval s) s \<and>
   uncaught (clearInterval (faceCheckInterval s) s) = uncaught s \<and>
   (mediaRecorder s = Some Inactive \<longrightarrow> stop_timeout s = s) \<and>
   (mediaRecorder s = Some Inactive \<and> timers s tid = Some (due, StopRecorder) \<and> due \<le> now s
      \<longrightarrow> step (Fire tid) s = s\<lparr>timers := (timers s)(tid := None)\<rparr>)"
  by (auto simp: clearInterval_def stop_timeout_def fire_timer_def split: option.splits)

theorem C9_stop_idempotent_witness:
  "mediaRecorder (run boot loading_page) = Some Inactive \<and>
   stop_timeout (run boot loading_page) = run boot loading_page \<and>
   faceCheckInterval (run boot loading_page) = Some 1 \<and>
   timers (clearInterval (Some 1) (run boot loading_page)) 1 = None \<and>
   clearInterval (Some 1) (clearInterval (Some 1) (run boot loading_page)) =
     clearInterval (Some 1) (run boot loading_page)"
proof -
  have a: "mediaRecorder (run boot loading_page) = Some Inactive"
    and b: "faceCheckInterval (run boot loading_page) = Some 1"
    by (simp_all add: run_defs)
  have c: "timers (clearInterval (Some 1) (run boot loading_page)) 1 = None"
    by (simp add: clearInterval_def)
  show ?thesis
    using C9_stop_idempotent [of "run boot loading_page"] a b c by simp
qed

section \<open>C7: a success response is not checked for its shape\<close>






section \<open>C10: what a failed submission leaves on display\<close>

text \<open>
  C10, as the claim states it: every failed submission would leave the result display
  as it was, the grid hidden. A success response whose body is \<open>null\<close> fails inside
  \<open>displayResults\<close>, at the first property read: the status line shows the error, but
  the placeholder is already hidden and the grid already shown.
\<close>

theorem C10_null_body_counterexample:
  "grid_display (run measurement loading_page) = ''none'' \<and>
   grid_display
     (run (measurement @ [FetchSettled (Response True (ValidJson JNull))]) loading_page) =
     ''flex'' \<and>
   placeholder_display
     (run (measurement @ [FetchSettled (Response True (ValidJson JNull))]) loading_page) =
     ''none'' \<and>
   status_text
     (run (measurement @ [FetchSettled (Response True (ValidJson JNull))]) loading_page) =
     ''Error: '' @ message (null_read_error ''heart_rate'')"
  by (simp add: run_append measurement_state)
    (simp add: handler_defs)

text \<open>
  The failures that occur before anything is rendered: the request is rejected, the
  status is not a success, or the body of a success response is not valid JSON.
\<close>

fun fails_early :: "fetch_outcome \<Rightarrow> bool" where
  "fails_early (Rejected e) = True"
| "fails_early (Response ok (InvalidJson e)) = True"
| "fails_early (Response ok (ValidJson d)) = (\<not> ok)"

fun is_settle :: "event \<Rightarrow> bool" where
  "is_settle (FetchSettled out) = True"
| "is_settle (ModelLoaded b) = False"
| "is_settle (CameraResult r) = False"
| "is_settle (MetadataLoaded b) = False"
| "is_settle (ReadyState n) = False"
| "is_settle (Advance d) = False"
| "is_settle (Fire tid) = False"
| "is_settle (DetectionSettled d) = False"
| "is_settle Click = False"
| "is_settle (DataAvailable d) = False"
| "is_settle RecorderStopped = False"

lemma fields_kept_step:
  assumes "\<not> is_settle e"
  shows "hr_value (step e s) = hr_value s \<and> bp_value (step e s) = bp_value s \<and>
    stress_value (step e s) = stress_value s"
proof (cases e)
  case (Fire tid)
  then show ?thesis
    by (simp add: fire_timer_def detectFace_call_def reject_timeout_def countdown_tick_def
        clearInterval_def stop_timeout_def Let_def
        split: option.splits timer_kind.splits rec_state.splits prod.splits)
next
  case Click
  then show ?thesis
    by (simp add: startMeasurement_def set_timer_def clearInterval_def recorder_start_def
        Let_def split: option.splits rec_state.splits)
qed (use assms in \<open>simp_all add: loadModel_resume_def initializeWebcam_resume_def
      onloadedmetadata_def set_timer_def detectFace_resume_def ondataavailable_def onstop_def
      sendToServerForPrediction_def Let_def split: camera.splits detection.splits\<close>)

lemma grid_hidden_step:
  assumes "\<not> is_settle e" "placeholder_display s = ''block''" "grid_display s = ''none''"
  shows "placeholder_display (step e s) = ''block'' \<and> grid_display (step e s) = ''none''"
proof (cases e)
  case (Fire tid)
  then show ?thesis using assms(2,3)
    by (simp add: fire_timer_def detectFace_call_def reject_timeout_def countdown_tick_def
        clearInterval_def stop_timeout_def Let_def
        split: option.splits timer_kind.splits rec_state.splits prod.splits)
next
  case Click
  then show ?thesis using assms(2,3)
    by (simp add: startMeasurement_def set_timer_def clearInterval_def recorder_start_def
        Let_def split: option.splits rec_state.splits)
qed (use assms in \<open>simp_all add: loadModel_resume_def initializeWebcam_resume_def
      onloadedmetadata_def set_timer_def detectFace_resume_def ondataavailable_def onstop_def
      sendToServerForPrediction_def Let_def split: camera.splits detection.splits\<close>)

lemma display_kept_run:
  assumes "\<forall>e \<in> set es. \<not> is_settle e"
    "placeholder_display s = ''block''" "grid_display s = ''none''"
  shows "hr_value (run es s) = hr_value s \<and> bp_value (run es s) = bp_value s \<and>
    stress_value (run es s) = stress_value s \<and>
    placeholder_display (run es s) = ''block'' \<and> grid_display (run es s) = ''none''"
  using assms
proof (induction es arbitrary: s)
  case Nil
  then show ?case by simp
next
  case (Cons e es)
  from Cons.prems have e: "\<not> is_settle e" and es: "\<forall>e \<in> set es. \<not> is_settle e"
    by simp_all
  note g = grid_hidden_step [OF e Cons.prems(2,3)]
  from Cons.IH [OF es conjunct1 [OF g] conjunct2 [OF g]] fields_kept_step [OF e, of s]
  show ?case by simp
qed

lemma settle_early_display:
  assumes "fails_early out"
  shows "hr_value (step (FetchSettled out) s) = hr_value s \<and>
    bp_value (step (FetchSettled out) s) = bp_value s \<and>
    stress_value (step (FetchSettled out) s) = stress_value s \<and>
    placeholder_display (step (FetchSettled out) s) = placeholder_display s \<and>
    grid_display (step (FetchSettled out) s) = grid_display s"
  using assms
  by (cases out rule: fails_early.cases)
    (simp_all add: sendToServerForPrediction_resume_def try_block_def catch_block_def
      finally_block_def set_timer_def Let_def split: list.splits sum.splits)

text \<open>
  C10, amended. For every submission that fails before rendering starts (the request
  is rejected, the response has a non-success status, or a success response has a body
  that is not valid JSON), the result display is left unchanged: whatever happens
  between the accepted request and the failure, the heart-rate, blood-pressure and
  stress fields keep the values they had before the session, the placeholder stays
  shown and the grid hidden, as the accepted request set them. A success response
  whose body is \<open>null\<close> fails only inside \<open>displayResults\<close>: the three value fields
  are still unchanged, but the placeholder is hidden and the grid shown.
\<close>

theorem C10_failed_submission_display:
  "(fails_early out \<and> (\<forall>e \<in> set es. \<not> is_settle e) \<and> \<not> predict_disabled s \<and> face_green s
      \<longrightarrow>
      (let s' = step (FetchSettled out) (run es (step Click s)) in
         hr_value s' = hr_value s \<and> bp_value s' = bp_value s \<and>
         stress_value s' = stress_value s \<and>
         placeholder_display s' = ''block'' \<and> grid_display s' = ''none'')) \<and>
   (fetches t \<noteq> [] \<longrightarrow>
      (let s' = step (FetchSettled (Response True (ValidJson JNull))) t in
         hr_value s' = hr_value t \<and> bp_value s' = bp_value t \<and>
         stress_value s' = stress_value t \<and>
         placeholder_display s' = ''none'' \<and> grid_display s' = ''flex'' \<and>
         status_text s' = ''Error: '' @ message (null_read_error ''heart_rate'')))"
proof -
  have "let s' = step (FetchSettled out) (run es (step Click s)) in
         hr_value s' = hr_value s \<and> bp_value s' = bp_value s \<and>
         stress_value s' = stress_value s \<and>
         placeholder_display s' = ''block'' \<and> grid_display s' = ''none''"
    if f: "fails_early out" and es: "\<forall>e \<in> set es. \<not> is_settle e"
      and en: "\<not> predict_disabled s" and g: "face_green s"
  proof -
    have c: "placeholder_display (step Click s) = ''block''"
      "grid_display (step Click s) = ''none''"
      "hr_value (step Click s) = hr_value s" "bp_value (step Click s) = bp_value s"
      "stress_value (step Click s) = stress_value s"
      using en g
      by (simp_all add: face_green_def startMeasurement_def set_timer_def clearInterval_def
          recorder_start_def Let_def split: option.splits rec_state.splits)
    from display_kept_run [OF es c(1,2)] settle_early_display [OF f, of "run es (step Click s)"] c
    show ?thesis by (simp add: Let_def)
  qed
  moreover have "let s' = step (FetchSettled (Response True (ValidJson JNull))) t in
         hr_value s' = hr_value t \<and> bp_value s' = bp_value t \<and>
         stress_value s' = stress_value t \<and>
         placeholder_display s' = ''none'' \<and> grid_display s' = ''flex'' \<and>
         status_text s' = ''Error: '' @ message (null_read_error ''heart_rate'')"
    if "fetches t \<noteq> []"
    using that
    by (simp add: sendToServerForPrediction_resume_def try_block_def catch_block_def
        finally_block_def set_timer_def displayResults_def Let_def split: list.splits)
  ultimately show ?thesis by blast
qed

text \<open>A click on the idle page of \<open>boot\<close>, once the face is found, and a failure.\<close>

theorem C10_failed_submission_display_witness:
  "(let s = run (boot @ [Advance 500, Fire 1, DetectionSettled (Regions 1)]) loading_page;
        s' = step (FetchSettled (Response False (ValidJson (JObj []))))
               (run [Advance 30000, Fire 3, DataAvailable [7], RecorderStopped] (step Click s))
    in \<not> predict_disabled s \<and> face_green s \<and>
       hr_value s' = ''--'' \<and> placeholder_display s' = ''block'' \<and>
       grid_display s' = ''none'' \<and> status_text s' = ''Error: Prediction failed.'')"
proof -
  let ?s = "run (boot @ [Advance 500, Fire 1, DetectionSettled (Regions 1)]) loading_page"
  let ?es = "[Advance 30000, Fire 3, DataAvailable [7], RecorderStopped]"
  have a: "\<not> predict_disabled ?s" "face_green ?s" "hr_value ?s = ''--''"
    by (simp_all add: face_green_def run_defs)
  have b: "\<forall>e \<in> set ?es. \<not> is_settle e" by simp
  have c: "status_text (step (FetchSettled (Response False (ValidJson (JObj []))))
      (run ?es (step Click ?s))) = ''Error: Prediction failed.''"
    by (simp add: run_defs)
  have d: "fails_early (Response False (ValidJson (JObj [])))" by simp
  have x: "hr_value (step (FetchSettled (Response False (ValidJson (JObj []))))
        (run ?es (step Click ?s))) = hr_value ?s \<and>
      placeholder_display (step (FetchSettled (Response False (ValidJson (JObj []))))
        (run ?es (step Click ?s))) = ''block'' \<and>
      grid_display (step (FetchSettled (Response False (ValidJson (JObj []))))
        (run ?es (step Click ?s))) = ''none''"
    using conjunct1 [OF C10_failed_submission_display
        [of "Response False (ValidJson (JObj []))" ?es ?s loading_page]] a(1,2) b d
    unfolding Let_def by blast
  show ?thesis
    unfolding Let_def using x a c by metis
qed

section \<open>C2: a failed submission restores the idle page\<close>

fun is_failure :: "fetch_outcome \<Rightarrow> bool" where
  "is_failure (Rejected e) = True"
| "is_failure (Response ok b) = (\<not> ok)"

lemma try_block_failure:
  assumes "is_failure out"
  shows "\<exists>e. \<forall>t. try_block out t = (Some e, t)"
proof (cases out)
  case (Rejected e)
  then show ?thesis by (simp add: try_block_def)
next
  case (Response ok b)
  with assms have "\<not> ok" by simp
  then show ?thesis using Response
    by (cases "get_prop (case b of ValidJson j \<Rightarrow> j
          | InvalidJson e \<Rightarrow> JObj [(''error'', JStr ''Server returned an error.'')]) ''error''")
      (simp_all add: try_block_def Let_def)
qed

lemma submitting_model: "reachable s \<Longrightarrow> fetches s \<noteq> [] \<Longrightarrow> model s"
  using reachable_page_inv [of s] by (simp add: page_inv_def session_quiet_def in_session_def)

text \<open>
  C2. Whenever a request is in flight and it fails, by a transport failure or by a
  response with a non-success status, the \<open>try\<close> block throws an error without having
  changed anything, the status line becomes \<open>Error: \<close> followed by that error's
  message, the button is enabled, and a new polling interval is pending, its handle
  stored in \<open>faceCheckInterval\<close>: in every reachable state with a request in flight the
  model is loaded, so the guard on the restart always holds. The error is the rejection
  itself for a transport failure; for a non-success response its message is the body's
  \<open>error\<close> text when the body has a non-empty one, so that the body
  \<open>{"error":"bad video"}\<close> gives the status line \<open>Error: bad video\<close>; it is
  \<open>Server returned an error.\<close> when the body is not JSON and \<open>Prediction failed.\<close>
  when the body has no \<open>error\<close>.
\<close>

theorem C2_failure_restores_idle:
  assumes "reachable s" and "fetches s \<noteq> []" and "is_failure out"
  shows "\<exists>e. fst (try_block out s) = Some e \<and> snd (try_block out s) = s \<and>
      status_text (step (FetchSettled out) s) = ''Error: '' @ message e \<and>
      \<not> predict_disabled (step (FetchSettled out) s) \<and>
      faceCheckInterval (step (FetchSettled out) s) = Some (next_id s) \<and>
      timers (step (FetchSettled out) s) (next_id s) = Some (now s + 500, FaceCheck) \<and>
      (\<forall>x. out = Rejected x \<longrightarrow> e = x) \<and>
      (\<forall>m. out = Response False (ValidJson (JObj [(''error'', JStr m)])) \<and> m \<noteq> [] \<longrightarrow>
           message e = m) \<and>
      (\<forall>x. out = Response False (InvalidJson x) \<longrightarrow> message e = ''Server returned an error.'') \<and>
      (out = Response False (ValidJson (JObj [])) \<longrightarrow> message e = ''Prediction failed.'') \<and>
      (out = Response False (ValidJson (JObj [(''error'', JStr ''bad video'')])) \<longrightarrow>
         status_text (step (FetchSettled out) s) = ''Error: bad video'')"
proof -
  from try_block_failure [OF assms(3)] obtain e where e: "\<And>t. try_block out t = (Some e, t)"
    by blast
  from assms(2) obtain b bs where f: "fetches s = b # bs" by (cases "fetches s") auto
  have m: "model s" using submitting_model [OF assms(1,2)] .
  have st: "status_text (step (FetchSettled out) s) = ''Error: '' @ message e"
    by (simp add: f sendToServerForPrediction_resume_def e catch_block_def finally_block_def
        set_timer_def Let_def m)
  have rest: "\<not> predict_disabled (step (FetchSettled out) s)"
    "faceCheckInterval (step (FetchSettled out) s) = Some (next_id s)"
    "timers (step (FetchSettled out) s) (next_id s) = Some (now s + 500, FaceCheck)"
    by (simp_all add: f resume_frame resume_timers m)
  have r: "\<forall>x. out = Rejected x \<longrightarrow> e = x"
    using e [of s] by (auto simp: try_block_def)
  have j: "\<forall>m. out = Response False (ValidJson (JObj [(''error'', JStr m)])) \<and> m \<noteq> [] \<longrightarrow>
      message e = m"
    using e [of s] by (auto simp: try_block_def template_def)
  have i: "\<forall>x. out = Response False (InvalidJson x) \<longrightarrow>
      message e = ''Server returned an error.''"
    using e [of s] by (auto simp: try_block_def template_def)
  have n: "out = Response False (ValidJson (JObj [])) \<longrightarrow> message e = ''Prediction failed.''"
    using e [of s] by (auto simp: try_block_def)
  have v: "out = Response False (ValidJson (JObj [(''error'', JStr ''bad video'')])) \<longrightarrow>
      status_text (step (FetchSettled out) s) = ''Error: bad video''"
    using j st by auto
  show ?thesis
    using e [of s] st rest r j i n v by (intro exI [of _ e]) simp
qed

theorem C2_failure_restores_idle_witness:
  "fetches (run measurement loading_page) \<noteq> [] \<and>
   status_text
     (step (FetchSettled (Response False (ValidJson (JObj [(''error'', JStr ''bad video'')]))))
        (run measurement loading_page)) = ''Error: bad video'' \<and>
   \<not> predict_disabled
     (step (FetchSettled (Response False (ValidJson (JObj [(''error'', JStr ''bad video'')]))))
        (run measurement loading_page)) \<and>
   timers
     (step (FetchSettled (Response False (ValidJson (JObj [(''error'', JStr ''bad video'')]))))
        (run measurement loading_page)) 4 = Some (31000, FaceCheck)"
proof -
  have f: "fetches (run measurement loading_page) \<noteq> []"
    by (simp add: measurement_state)
  have o: "is_failure (Response False (ValidJson (JObj [(''error'', JStr ''bad video'')])))"
    by simp
  from C2_failure_restores_idle [OF reachable_loading_run f o]
  obtain e where e:
    "\<not> predict_disabled
       (step (FetchSettled (Response False (ValidJson (JObj [(''error'', JStr ''bad video'')]))))
          (run measurement loading_page))"
    "timers
       (step (FetchSettled (Response False (ValidJson (JObj [(''error'', JStr ''bad video'')]))))
          (run measurement loading_page)) (next_id (run measurement loading_page)) =
       Some (now (run measurement loading_page) + 500, FaceCheck)"
    "status_text
       (step (FetchSettled (Response False (ValidJson (JObj [(''error'', JStr ''bad video'')]))))
          (run measurement loading_page)) = ''Error: bad video''"
    by blast
  show ?thesis
    using f e by (simp add: measurement_state)
qed

section \<open>C6: the payload and the one request\<close>

lemma concat_nonempty: "concat (filter (\<lambda>c. c \<noteq> []) cs) = concat cs"
  by (induction cs) simp_all

lemma run_data:
  "mediaRecorder s = Some Recording \<or> stop_pending s \<Longrightarrow>
     run (map DataAvailable cs) s =
       s\<lparr>recordedChunks := recordedChunks s @ filter (\<lambda>c. c \<noteq> []) cs\<rparr>"
proof (induction cs arbitrary: s)
  case Nil
  then show ?case by simp
next
  case (Cons c cs)
  show ?case
  proof (cases "c = []")
    case True
    then show ?thesis using Cons by (simp add: ondataavailable_def)
  next
    case False
    let ?t = "s\<lparr>recordedChunks := recordedChunks s @ [c]\<rparr>"
    have "mediaRecorder ?t = Some Recording \<or> stop_pending ?t" using Cons.prems by simp
    from Cons.IH [OF this] show ?thesis using False Cons.prems
      by (simp add: ondataavailable_def)
  qed
qed

lemma idle_ready:
  assumes "reachable s" "\<not> predict_disabled s" "face_green s"
  shows "mediaRecorder s = Some Inactive" "\<not> stop_pending s" "fetches s = []"
    "recordedChunks s = []" "model s"
proof -
  from reachable_page_inv [OF assms(1)] have i: "session_quiet s" "polls_need_model s"
    "chunks_ok s"
    by (simp_all add: page_inv_def)
  from enabled_idle [OF i(1) assms(2)] have n: "mediaRecorder s \<noteq> Some Recording"
    and p: "\<not> stop_pending s" and f: "fetches s = []"
    by simp_all
  from i(2) assms(3) have m: "model s" and r: "mediaRecorder s \<noteq> None"
    by (simp_all add: polls_need_model_def)
  from n r show "mediaRecorder s = Some Inactive"
    by (cases "mediaRecorder s") (auto intro: rec_state.exhaust)
  from p show "\<not> stop_pending s" .
  from f show "fetches s = []" .
  from i(3) n p show "recordedChunks s = []" by (simp add: chunks_ok_def)
  from m show "model s" .
qed

lemma stop_and_send:
  assumes "stop_pending s"
  shows "fetches (run (map DataAvailable cs @ [RecorderStopped]) s) =
      fetches s @ [concat (recordedChunks s @ cs)]"
    "calls (run (map DataAvailable cs @ [RecorderStopped]) s) =
      calls s @
      [Fetch ''/predict'' ''POST'' ''video_blob'' ''recording.webm''
         (concat (recordedChunks s @ cs))]"
    "recordedChunks (run (map DataAvailable cs @ [RecorderStopped]) s) = []"
    "\<not> stop_pending (run (map DataAvailable cs @ [RecorderStopped]) s)"
  using assms
  by (simp_all add: run_append run_data onstop_def sendToServerForPrediction_def Let_def
      concat_nonempty)

lemma whole_session:
  assumes "reachable s" "\<not> predict_disabled s" "face_green s"
  shows "fetches (run ([Click] @ map DataAvailable cs1 @
        [Advance 30000, Fire (next_id s + 1)] @ map DataAvailable cs2 @ [RecorderStopped]) s) =
      [concat (cs1 @ cs2)]"
    "calls (run ([Click] @ map DataAvailable cs1 @
        [Advance 30000, Fire (next_id s + 1)] @ map DataAvailable cs2 @ [RecorderStopped]) s) =
      calls s @
      [RecorderStart, RecorderStop,
       Fetch ''/predict'' ''POST'' ''video_blob'' ''recording.webm'' (concat (cs1 @ cs2))]"
    "recordedChunks (run ([Click] @ map DataAvailable cs1 @
        [Advance 30000, Fire (next_id s + 1)] @ map DataAvailable cs2 @ [RecorderStopped]) s) =
      []"
proof -
  note i = idle_ready [OF assms]
  let ?s1 = "step Click s"
  have s1: "mediaRecorder ?s1 = Some Recording" "recordedChunks ?s1 = []"
    "fetches ?s1 = []" "calls ?s1 = calls s @ [RecorderStart]"
    "timers ?s1 (next_id s + 1) = Some (now s + 30000, StopRecorder)"
    "now ?s1 = now s" "\<not> stop_pending ?s1"
    using assms(2,3) i
    by (simp_all add: face_green_def startMeasurement_def set_timer_def clearInterval_def
        recorder_start_def measurementDuration_def Let_def split: option.splits)
  let ?s2 = "run (map DataAvailable cs1) ?s1"
  have s2: "?s2 = ?s1\<lparr>recordedChunks := filter (\<lambda>c. c \<noteq> []) cs1\<rparr>"
    using run_data [of ?s1 cs1] s1(1,2) by simp
  let ?s3 = "run [Advance 30000, Fire (next_id s + 1)] ?s2"
  have s3: "stop_pending ?s3" "recordedChunks ?s3 = filter (\<lambda>c. c \<noteq> []) cs1"
    "fetches ?s3 = []" "calls ?s3 = calls s @ [RecorderStart, RecorderStop]"
    unfolding s2 using s1
    by (simp_all add: fire_timer_def stop_timeout_def)
  have r: "run ([Click] @ map DataAvailable cs1 @
        [Advance 30000, Fire (next_id s + 1)] @ map DataAvailable cs2 @ [RecorderStopped]) s =
      run (map DataAvailable cs2 @ [RecorderStopped]) ?s3"
    by (simp add: run_append)
  show "fetches (run ([Click] @ map DataAvailable cs1 @
        [Advance 30000, Fire (next_id s + 1)] @ map DataAvailable cs2 @ [RecorderStopped]) s) =
      [concat (cs1 @ cs2)]"
    unfolding r stop_and_send(1) [OF s3(1)] s3 by (simp add: concat_nonempty)
  show "calls (run ([Click] @ map DataAvailable cs1 @
        [Advance 30000, Fire (next_id s + 1)] @ map DataAvailable cs2 @ [RecorderStopped]) s) =
      calls s @
      [RecorderStart, RecorderStop,
       Fetch ''/predict'' ''POST'' ''video_blob'' ''recording.webm'' (concat (cs1 @ cs2))]"
    unfolding r stop_and_send(2) [OF s3(1)] s3 by (simp add: concat_nonempty)
  show "recordedChunks (run ([Click] @ map DataAvailable cs1 @
        [Advance 30000, Fire (next_id s + 1)] @ map DataAvailable cs2 @ [RecorderStopped]) s) =
      []"
    unfolding r stop_and_send(3) [OF s3(1)] by simp
qed

text \<open>
  C6. When the recorder's \<open>stop\<close> event arrives, the payload is the bytes of the chunks
  gathered so far, in the order they came, as one blob; the buffer is emptied; and one
  request is issued, a POST to \<open>/predict\<close> carrying that blob as \<open>video_blob\<close>. In every
  reachable state the recordings started are as many as the requests issued, plus the
  one recording still running or stopping: one request per accepted measurement. And a
  whole session from an accepted click (chunks arriving while it records, the stop
  timeout, more chunks, the \<open>stop\<close> event) starts the recorder once, stops it once and
  issues one request, whose payload is those chunks in order and nothing else.
\<close>

theorem C6_payload_and_request:
  "(stop_pending s \<longrightarrow>
      fetches (run (map DataAvailable cs @ [RecorderStopped]) s) =
        fetches s @ [concat (recordedChunks s @ cs)] \<and>
      calls (run (map DataAvailable cs @ [RecorderStopped]) s) =
        calls s @
        [Fetch ''/predict'' ''POST'' ''video_blob'' ''recording.webm''
           (concat (recordedChunks s @ cs))] \<and>
      recordedChunks (run (map DataAvailable cs @ [RecorderStopped]) s) = []) \<and>
   (reachable s \<longrightarrow>
      n_starts s =
        n_fetches s + (if mediaRecorder s = Some Recording \<or> stop_pending s then 1 else 0)) \<and>
   (reachable s \<and> \<not> predict_disabled s \<and> face_green s \<longrightarrow>
      fetches (run ([Click] @ map DataAvailable cs1 @
          [Advance 30000, Fire (next_id s + 1)] @ map DataAvailable cs2 @ [RecorderStopped]) s) =
        [concat (cs1 @ cs2)] \<and>
      calls (run ([Click] @ map DataAvailable cs1 @
          [Advance 30000, Fire (next_id s + 1)] @ map DataAvailable cs2 @ [RecorderStopped]) s) =
        calls s @
        [RecorderStart, RecorderStop,
         Fetch ''/predict'' ''POST'' ''video_blob'' ''recording.webm'' (concat (cs1 @ cs2))] \<and>
      recordedChunks (run ([Click] @ map DataAvailable cs1 @
          [Advance 30000, Fire (next_id s + 1)] @ map DataAvailable cs2 @ [RecorderStopped]) s) =
        [])"
proof -
  have "reachable s \<longrightarrow>
      n_starts s =
        n_fetches s + (if mediaRecorder s = Some Recording \<or> stop_pending s then 1 else 0)"
    using reachable_page_inv [of s] by (simp add: page_inv_def calls_ok_def)
  then show ?thesis
    using stop_and_send [of s cs] whole_session [of s cs1 cs2] by blast
qed

theorem C6_payload_and_request_witness:
  "(let s = run (boot @ [Advance 500, Fire 1, DetectionSettled (Regions 1)]) loading_page;
        s' = run ([Click] @ map DataAvailable [[1, 2], [], [3]] @
                  [Advance 30000, Fire (next_id s + 1)] @ map DataAvailable [[4, 5]] @
                  [RecorderStopped]) s
    in \<not> predict_disabled s \<and> face_green s \<and> fetches s' = [[1, 2, 3, 4, 5]] \<and>
       recordedChunks s' = [] \<and> n_starts s' = 1 \<and> n_fetches s' = 1)"
proof -
  let ?s = "run (boot @ [Advance 500, Fire 1, DetectionSettled (Regions 1)]) loading_page"
  let ?s' = "run ([Click] @ map DataAvailable [[1, 2], [], [3]] @
                  [Advance 30000, Fire (next_id ?s + 1)] @ map DataAvailable [[4, 5]] @
                  [RecorderStopped]) ?s"
  have a: "\<not> predict_disabled ?s" "face_green ?s" "calls ?s = [EstimateFaces]"
    by (simp_all add: face_green_def run_defs)
  have r: "reachable ?s" by (rule reachable_loading_run)
  from C6_payload_and_request [of ?s "[]" "[[1, 2], [], [3]]" "[[4, 5]]"] r a(1,2)
  have x: "fetches ?s' = [concat ([[1, 2], [], [3]] @ [[4, 5]])]"
    "calls ?s' = calls ?s @
        [RecorderStart, RecorderStop,
         Fetch ''/predict'' ''POST'' ''video_blob'' ''recording.webm''
           (concat ([[1, 2], [], [3]] @ [[4, 5]]))]"
    "recordedChunks ?s' = []"
    by blast+
  have n: "n_starts ?s' = 1" "n_fetches ?s' = 1"
    unfolding n_starts_def n_fetches_def x(2) a(3) by simp_all
  have f: "fetches ?s' = [[1, 2, 3, 4, 5]]" unfolding x(1) by simp
  show ?thesis unfolding Let_def using a(1,2) f x(3) n by blast
qed

section \<open>C1: the gate on the face indicator\<close>

text \<open>
  C1, as the claim states it: every rejected request would have the status line back at
  the ready message once its 3 s have passed. Here a request is rejected at 0 ms; the
  face is found at 500 ms and a second request is accepted; when the timeout of the
  first fires, at 3000 ms, the status line shows the countdown, and the timeout's
  guard leaves it alone.
\<close>

theorem C1_revert_counterexample:
  "status_text (run (boot @ [Click]) loading_page) = reject_message \<and>
   timers (run (boot @ [Click]) loading_page) 2 = Some (3000, RejectRevert) \<and>
   now
     (run (boot @ [Click, Advance 500, Fire 1, DetectionSettled (Regions 1), Click,
        Advance 1000, Fire 3, Advance 1000, Fire 3, Advance 500]) loading_page) = 3000 \<and>
   timers
     (run (boot @ [Click, Advance 500, Fire 1, DetectionSettled (Regions 1), Click,
        Advance 1000, Fire 3, Advance 1000, Fire 3, Advance 500]) loading_page) 2 =
     Some (3000, RejectRevert) \<and>
   status_text
     (run (boot @ [Click, Advance 500, Fire 1, DetectionSettled (Regions 1), Click,
        Advance 1000, Fire 3, Advance 1000, Fire 3, Advance 500, Fire 2]) loading_page) =
     ''Recording... 28s remaining'' \<and>
   status_text
     (run (boot @ [Click, Advance 500, Fire 1, DetectionSettled (Regions 1), Click,
        Advance 1000, Fire 3, Advance 1000, Fire 3, Advance 500, Fire 2]) loading_page) \<noteq>
     ready_message"
  by (simp add: run_defs reject_message_def ready_message_def)

lemma click_rejected:
  assumes "\<not> predict_disabled s" "\<not> face_green s"
  shows "step Click s =
      s\<lparr>status_text := reject_message,
        timers := (timers s)(next_id s \<mapsto> (now s + 3000, RejectRevert)),
        next_id := next_id s + 1\<rparr>"
  using assms by (simp add: face_green_def startMeasurement_def set_timer_def)

lemma click_accepted:
  assumes "\<not> predict_disabled s" "face_green s"
  shows "predict_disabled (step Click s)"
    "status_text (step Click s) = ''Recording... 30s remaining''"
    "placeholder_display (step Click s) = ''block''"
    "grid_display (step Click s) = ''none''"
  using assms
  by (simp_all add: face_green_def startMeasurement_def set_timer_def clearInterval_def
      recorder_start_def measurementDuration_def print_defs Let_def
      split: option.splits rec_state.splits)

lemma click_starts_recorder:
  assumes "reachable s" "\<not> predict_disabled s" "face_green s"
  shows "mediaRecorder (step Click s) = Some Recording"
    "calls (step Click s) = calls s @ [RecorderStart]"
    "timers (step Click s) (next_id s + 1) = Some (now s + 30000, StopRecorder)"
    "timers (step Click s) (next_id s) = Some (now s + 1000, CountdownTick 30)"
    "now (step Click s) = now s"
  using assms(2,3) idle_ready [OF assms]
  by (simp_all add: face_green_def startMeasurement_def set_timer_def clearInterval_def
      recorder_start_def measurementDuration_def Let_def split: option.splits)

lemma revert_fires:
  assumes "timers t tid = Some (due, RejectRevert)"
  shows "step (Fire tid) t =
      (if now t < due then t
       else if status_text t = reject_message
         then t\<lparr>timers := (timers t)(tid := None), status_text := ready_message\<rparr>
         else t\<lparr>timers := (timers t)(tid := None)\<rparr>)"
  using assms by (simp add: fire_timer_def reject_timeout_def)

text \<open>
  C1, amended. A click on the enabled button is accepted if and only if the indicator's
  class list holds \<open>green\<close> at that moment; an accepted one disables the button, hides
  the grid, writes the first countdown line and, in every reachable state, starts the
  recorder. A rejected one leaves everything as it is but for the rejection message in
  the status line and one timeout, due 3 s later. That timeout does nothing before it
  is due; when it fires it puts the ready message back provided the status line still
  shows the rejection message, and otherwise leaves the status line alone.
\<close>

theorem C1_gate_and_rejection:
  "(\<not> predict_disabled s \<longrightarrow> predict_disabled (step Click s) = face_green s) \<and>
   (\<not> predict_disabled s \<and> face_green s \<longrightarrow>
      status_text (step Click s) = ''Recording... 30s remaining'' \<and>
      placeholder_display (step Click s) = ''block'' \<and>
      grid_display (step Click s) = ''none'') \<and>
   (reachable s \<and> \<not> predict_disabled s \<and> face_green s \<longrightarrow>
      mediaRecorder (step Click s) = Some Recording) \<and>
   (\<not> predict_disabled s \<and> \<not> face_green s \<longrightarrow>
      step Click s =
        s\<lparr>status_text := reject_message,
          timers := (timers s)(next_id s \<mapsto> (now s + 3000, RejectRevert)),
          next_id := next_id s + 1\<rparr>) \<and>
   (timers t tid = Some (due, RejectRevert) \<longrightarrow>
      step (Fire tid) t =
        (if now t < due then t
         else if status_text t = reject_message
           then t\<lparr>timers := (timers t)(tid := None), status_text := ready_message\<rparr>
           else t\<lparr>timers := (timers t)(tid := None)\<rparr>))"
proof -
  have "predict_disabled (step Click s) = face_green s" if "\<not> predict_disabled s"
  proof (cases "face_green s")
    case True
    then show ?thesis using click_accepted(1) [OF that] by simp
  next
    case False
    then show ?thesis using click_rejected [OF that] that by simp
  qed
  then show ?thesis
    using click_accepted [of s] click_starts_recorder(1) [of s] click_rejected [of s]
      revert_fires [of t tid due]
    by blast
qed

theorem C1_gate_and_rejection_witness:
  "\<not> predict_disabled (run boot loading_page) \<and> \<not> face_green (run boot loading_page) \<and>
   status_text (step Click (run boot loading_page)) = reject_message \<and>
   \<not> predict_disabled (step Click (run boot loading_page)) \<and>
   timers (step Click (run boot loading_page)) 2 = Some (3000, RejectRevert) \<and>
   status_text (run [Click, Advance 3000, Fire 2] (run boot loading_page)) = ready_message"
proof -
  let ?s = "run boot loading_page"
  have a: "\<not> predict_disabled ?s" "\<not> face_green ?s" "next_id ?s = 2" "now ?s = 0"
    by (simp_all add: face_green_def run_defs)
  from C1_gate_and_rejection [of ?s] a(1,2)
  have c: "step Click ?s =
        ?s\<lparr>status_text := reject_message,
          timers := (timers ?s)(next_id ?s \<mapsto> (now ?s + 3000, RejectRevert)),
          next_id := next_id ?s + 1\<rparr>"
    by blast
  have d: "status_text (step Click ?s) = reject_message"
    "\<not> predict_disabled (step Click ?s)"
    "timers (step Click ?s) 2 = Some (3000, RejectRevert)"
    unfolding c using a by simp_all
  have e: "status_text (run [Click, Advance 3000, Fire 2] ?s) = ready_message"
    by (simp add: run_defs reject_message_def ready_message_def)
  show ?thesis using a(1,2) d e by blast
qed

section \<open>C3: one recording, stopped by the stop timeout\<close>

text \<open>
  While the recorder records and its stop timeout is pending, no event but the firing
  of that timeout changes either, or starts the recorder again.
\<close>

lemma recording_kept:
  assumes "page_inv t" "mediaRecorder t = Some Recording"
    "timers t tid = Some (due, StopRecorder)" "e \<noteq> Fire tid"
  shows "mediaRecorder (step e t) = Some Recording \<and>
    timers (step e t) tid = Some (due, StopRecorder) \<and> n_starts (step e t) = n_starts t"
proof -
  from assms(1) have i: "ids_fresh t" "session_quiet t" "recorder_started t"
    "stop_timer_ok t" "one_stage t"
    by (simp_all add: page_inv_def)
  from i(2) assms(2) have dis: "predict_disabled t"
    by (simp add: session_quiet_def in_session_def)
  from i(3) assms(2) have ph: "phase t = Started" by (simp add: recorder_started_def)
  from i(5) assms(2) have st: "\<not> stop_pending t" "fetches t = []"
    by (simp_all add: one_stage_def)
  from i(1) assms(3) have lt: "tid < next_id t"
    by (metis ids_fresh_def not_le option.distinct(1))
  have only: "tid' = tid" if "timers t tid' = Some (d', StopRecorder)" for tid' d'
    using i(4) that assms(3) by (auto simp: stop_timer_ok_def)
  show ?thesis
  proof (cases e)
    case (MetadataLoaded b)
    then show ?thesis using ph assms(2,3) by simp
  next
    case (Fire tid')
    with assms(4) have ne: "tid' \<noteq> tid" by simp
    show ?thesis
    proof (cases "timers t tid'")
      case None
      then show ?thesis using Fire assms(2,3) by simp
    next
      case (Some a)
      obtain d' k where a: "a = (d', k)" by (cases a)
      have "k \<noteq> StopRecorder" using only [of tid' d'] Some a ne by auto
      then show ?thesis using Fire Some a ne assms(2,3)
        by (cases k)
          (simp_all add: fire_timer_def detectFace_call_def reject_timeout_def
            countdown_tick_def clearInterval_def n_starts_def Let_def)
    qed
  next
    case Click
    then show ?thesis using dis assms(2,3) by simp
  next
    case RecorderStopped
    then show ?thesis using st assms(2,3) by simp
  next
    case (FetchSettled out)
    then show ?thesis using st assms(2,3) by simp
  qed (use assms(2,3) in \<open>simp_all add: loadModel_resume_def initializeWebcam_resume_def
        detectFace_resume_def ondataavailable_def n_starts_def
        split: camera.splits detection.splits\<close>)
qed

lemma recording_kept_run:
  assumes "page_inv t" "mediaRecorder t = Some Recording"
    "timers t tid = Some (due, StopRecorder)" "Fire tid \<notin> set es"
  shows "mediaRecorder (run es t) = Some Recording \<and>
    timers (run es t) tid = Some (due, StopRecorder) \<and> n_starts (run es t) = n_starts t"
  using assms
proof (induction es arbitrary: t)
  case Nil
  then show ?case by simp
next
  case (Cons e es)
  from Cons.prems(4) have e: "e \<noteq> Fire tid" and es: "Fire tid \<notin> set es" by auto
  note k = recording_kept [OF Cons.prems(1,2,3) e]
  from Cons.IH [OF page_inv_step [OF Cons.prems(1)] conjunct1 [OF k]
      conjunct1 [OF conjunct2 [OF k]] es] k
  show ?case by simp
qed

lemma stop_fires:
  assumes "mediaRecorder t = Some Recording" "timers t tid = Some (due, StopRecorder)"
  shows "now t < due \<longrightarrow> step (Fire tid) t = t"
    "due \<le> now t \<longrightarrow>
       mediaRecorder (step (Fire tid) t) = Some Inactive \<and>
       stop_pending (step (Fire tid) t) \<and>
       calls (step (Fire tid) t) = calls t @ [RecorderStop] \<and>
       status_text (step (Fire tid) t) = ''Processing... Please wait.'' \<and>
       timers (step (Fire tid) t) tid = None"
  using assms by (simp_all add: fire_timer_def stop_timeout_def)

text \<open>
  C3. An accepted request finds the recorder inactive, starts it, once, and sets the
  stop timeout, due 30 s later (its id is the second of the two the handler draws).
  Whatever happens next, as long as that timeout has not fired (countdown ticks on
  time, late, bunched or none at all, clicks, polls, chunks, time passing), the
  recorder goes on recording, no second recording starts, and the timeout stays
  pending with its due time. It cannot fire before the 30 s are over, and when it
  fires it stops the recorder and writes the processing message, whatever the
  countdown shows.
\<close>

theorem C3_one_recording_stopped_by_timeout:
  assumes "reachable s" and "\<not> predict_disabled s" and "face_green s"
    and "Fire (next_id s + 1) \<notin> set es"
  shows "mediaRecorder s = Some Inactive \<and>
    mediaRecorder (step Click s) = Some Recording \<and>
    calls (step Click s) = calls s @ [RecorderStart] \<and>
    timers (step Click s) (next_id s + 1) = Some (now s + 30000, StopRecorder) \<and>
    mediaRecorder (run es (step Click s)) = Some Recording \<and>
    n_starts (run es (step Click s)) = n_starts s + 1 \<and>
    timers (run es (step Click s)) (next_id s + 1) = Some (now s + 30000, StopRecorder) \<and>
    (now (run es (step Click s)) < now s + 30000 \<longrightarrow>
       step (Fire (next_id s + 1)) (run es (step Click s)) = run es (step Click s)) \<and>
    (now s + 30000 \<le> now (run es (step Click s)) \<longrightarrow>
       mediaRecorder (step (Fire (next_id s + 1)) (run es (step Click s))) = Some Inactive \<and>
       stop_pending (step (Fire (next_id s + 1)) (run es (step Click s))) \<and>
       calls (step (Fire (next_id s + 1)) (run es (step Click s))) =
         calls (run es (step Click s)) @ [RecorderStop] \<and>
       status_text (step (Fire (next_id s + 1)) (run es (step Click s))) =
         ''Processing... Please wait.'')"
proof -
  note c = click_starts_recorder [OF assms(1,2,3)]
  have inv: "page_inv (step Click s)"
    using page_inv_step [OF reachable_page_inv [OF assms(1)]] .
  note k = recording_kept_run [OF inv c(1) c(3) assms(4)]
  note f = stop_fires [OF conjunct1 [OF k] conjunct1 [OF conjunct2 [OF k]]]
  have "n_starts (step Click s) = n_starts s + 1"
    unfolding n_starts_def c(2) by simp
  with k have n: "n_starts (run es (step Click s)) = n_starts s + 1"
    by (simp only:)
  show ?thesis
    using idle_ready(1) [OF assms(1,2,3)] c(1,2,3) k n f by blast
qed

text \<open>
  Two runs after the same accepted click (countdown id 2, stop timeout id 3): in one
  the ticks come every second, in the other none comes at all. At 30500 ms the stop
  timeout stops the recorder in both.
\<close>

theorem C3_one_recording_stopped_by_timeout_witness:
  "(let s = run (boot @ [Advance 500, Fire 1, DetectionSettled (Regions 1)]) loading_page;
        ticking = run (concat (replicate 30 [Advance 1000, Fire 2])) (step Click s);
        silent = run [Advance 30000] (step Click s)
    in \<not> predict_disabled s \<and> face_green s \<and> next_id s + 1 = 3 \<and>
       now ticking = 30500 \<and> now silent = 30500 \<and>
       mediaRecorder ticking = Some Recording \<and> mediaRecorder silent = Some Recording \<and>
       mediaRecorder (step (Fire 3) ticking) = Some Inactive \<and>
       mediaRecorder (step (Fire 3) silent) = Some Inactive \<and>
       status_text (step (Fire 3) silent) = ''Processing... Please wait.'')"
proof -
  let ?s = "run (boot @ [Advance 500, Fire 1, DetectionSettled (Regions 1)]) loading_page"
  let ?ticks = "concat (replicate 30 [Advance 1000, Fire 2])"
  have a: "\<not> predict_disabled ?s" "face_green ?s" "next_id ?s + 1 = 3" "now ?s = 500"
    by (simp_all add: face_green_def run_defs)
  have r: "reachable ?s" by (rule reachable_loading_run)
  have t: "Fire (next_id ?s + 1) \<notin> set ?ticks" "Fire (next_id ?s + 1) \<notin> set [Advance 30000]"
    unfolding a(3) by (simp_all add: replicate_num)
  have n: "now (run ?ticks (step Click ?s)) = 30500" "now (run [Advance 30000] (step Click ?s)) = 30500"
    by (simp_all add: run_defs)
  have le: "now ?s + 30000 \<le> now (run ?ticks (step Click ?s))"
    "now ?s + 30000 \<le> now (run [Advance 30000] (step Click ?s))"
    unfolding a(4) n by simp_all
  from C3_one_recording_stopped_by_timeout [OF r a(1,2) t(1), unfolded a(3)] le(1)
  have x: "mediaRecorder (run ?ticks (step Click ?s)) = Some Recording"
    "mediaRecorder (step (Fire 3) (run ?ticks (step Click ?s))) = Some Inactive"
    by blast+
  from C3_one_recording_stopped_by_timeout [OF r a(1,2) t(2), unfolded a(3)] le(2)
  have y: "mediaRecorder (run [Advance 30000] (step Click ?s)) = Some Recording"
    "mediaRecorder (step (Fire 3) (run [Advance 30000] (step Click ?s))) = Some Inactive"
    "status_text (step (Fire 3) (run [Advance 30000] (step Click ?s))) =
       ''Processing... Please wait.''"
    by blast+
  show ?thesis unfolding Let_def using a(1,2,3) n x y by blast
qed

section \<open>C8: polling, the session and the countdown\<close>

text \<open>
  A measurement whose countdown ticks each come 40 ms late. After 28 of them it is
  29620 ms and the next is due at 30620 ms. The stop timeout fires on time, at
  30500 ms; the page is offline, so the request is rejected 10 ms later and polling is
  set up again (interval 4), while the countdown interval (2) still has two ticks to go.
\<close>

definition late_ticks :: "event list" where
  "late_ticks =
     boot @ [Advance 500, Fire 1, DetectionSettled (Regions 1), Click] @
     concat (replicate 28 [Advance 1040, Fire 2]) @
     [Advance 880, Fire 3, DataAvailable [1, 2, 3], RecorderStopped, Advance 10,
      FetchSettled (Rejected (JsError ''TypeError'' ''Failed to fetch''))]"

text \<open>
  C8, as the claim states it: the polling timer and the countdown timer would never be
  at work at the same time. After \<open>late_ticks\<close> both are pending, the session is over and
  the button enabled; 150 ms later the countdown's tick replaces the error message
  in the status line by \<open>Recording... 1s remaining\<close>, with polling still pending.
\<close>

theorem C8_countdown_counterexample:
  "now (run late_ticks loading_page) = 30510 \<and>
   timers (run late_ticks loading_page) 4 = Some (31010, FaceCheck) \<and>
   timers (run late_ticks loading_page) 2 = Some (30620, CountdownTick 2) \<and>
   \<not> predict_disabled (run late_ticks loading_page) \<and>
   status_text (run late_ticks loading_page) = ''Error: Failed to fetch'' \<and>
   status_text (run (late_ticks @ [Advance 150, Fire 2]) loading_page) =
     ''Recording... 1s remaining'' \<and>
   timers (run (late_ticks @ [Advance 150, Fire 2]) loading_page) 4 = Some (31010, FaceCheck)"
  by (simp add: late_ticks_def run_defs)

lemma session_lasts:
  assumes "page_inv s" "in_session s" "\<not> is_settle e"
  shows "in_session (step e s)"
proof -
  from assms(1) have i: "session_quiet s" "recorder_started s" "one_stage s"
    by (simp_all add: page_inv_def)
  from i(1) assms(2) have dis: "predict_disabled s" by (simp add: session_quiet_def)
  from i(3) assms(2) have "mediaRecorder s \<noteq> None"
    by (auto simp: one_stage_def in_session_def split: option.splits)
  with i(2) have ph: "phase s = Started" by (simp add: recorder_started_def)
  show ?thesis
  proof (cases e)
    case (MetadataLoaded b)
    then show ?thesis using ph assms(2) by simp
  next
    case (Fire tid)
    then show ?thesis using assms(2)
      by (auto simp: in_session_def fire_timer_def detectFace_call_def reject_timeout_def
          countdown_tick_def clearInterval_def stop_timeout_def Let_def
          split: option.splits timer_kind.splits rec_state.splits)
  next
    case Click
    then show ?thesis using dis assms(2) by simp
  next
    case RecorderStopped
    then show ?thesis using assms(2)
      by (auto simp: in_session_def onstop_def sendToServerForPrediction_def Let_def)
  next
    case (FetchSettled out)
    then show ?thesis using assms(3) by simp
  qed (use assms(2) in \<open>auto simp: in_session_def loadModel_resume_def
        initializeWebcam_resume_def detectFace_resume_def ondataavailable_def
        split: camera.splits detection.splits\<close>)
qed

lemma session_not_polling:
  assumes "reachable s" "in_session s"
  shows "timers s tid \<noteq> Some (due, FaceCheck)"
  using reachable_page_inv [OF assms(1)] assms(2)
  by (simp add: page_inv_def session_quiet_def)

lemma poll_keeps_status:
  "timers s tid = Some (due, FaceCheck) \<Longrightarrow> status_text (step (Fire tid) s) = status_text s"
  "status_text (step (DetectionSettled d) s) = status_text s"
  by (simp_all add: fire_timer_def detectFace_call_def detectFace_resume_def
      split: detection.splits)

text \<open>
  C8, amended. Polling and the span from recording to the handled response exclude
  each other: in every reachable state in which the recorder records, its \<open>stop\<close> event
  is awaited or the request is in flight, no polling interval is pending. An accepted
  request begins that span with polling stopped, before the countdown and the recording
  begin; no event but the settling of the request ends the span, and only there is
  polling set up again. Polling never writes the status line. The countdown interval
  is not bound to the span: it is cleared by its own thirtieth tick alone, so when its
  ticks are late it can be pending, and write the status line, after polling is back.
\<close>

theorem C8_polling_excludes_session:
  "(reachable s \<and> in_session s \<longrightarrow> (\<forall>tid due. timers s tid \<noteq> Some (due, FaceCheck))) \<and>
   (reachable s \<and> \<not> predict_disabled s \<and> face_green s \<longrightarrow>
      in_session (step Click s) \<and>
      (\<forall>tid due. timers (step Click s) tid \<noteq> Some (due, FaceCheck))) \<and>
   (reachable s \<and> in_session s \<and> \<not> is_settle e \<longrightarrow> in_session (step e s)) \<and>
   (timers s tid = Some (due, FaceCheck) \<longrightarrow>
      status_text (step (Fire tid) s) = status_text s) \<and>
   status_text (step (DetectionSettled d) s) = status_text s"
proof -
  have a: "in_session (step Click s) \<and>
      (\<forall>tid due. timers (step Click s) tid \<noteq> Some (due, FaceCheck))"
    if r: "reachable s" and en: "\<not> predict_disabled s" and g: "face_green s"
  proof -
    have "in_session (step Click s)"
      using click_starts_recorder(1) [OF r en g] by (simp add: in_session_def)
    then show ?thesis
      using session_not_polling [OF reachable.after_step [OF r, of Click]] by blast
  qed
  show ?thesis
    using session_not_polling [of s] a session_lasts [OF reachable_page_inv, of s e]
      poll_keeps_status
    by blast
qed

theorem C8_polling_excludes_session_witness:
  "(let s = run (boot @ [Advance 500, Fire 1, DetectionSettled (Regions 1)]) loading_page
    in timers s 1 = Some (1000, FaceCheck) \<and> \<not> predict_disabled s \<and> face_green s \<and>
       in_session (step Click s) \<and> timers (step Click s) 1 \<noteq> Some (1000, FaceCheck) \<and>
       in_session (step (Fire 2) (step Click s)) \<and>
       status_text (step (Fire 1) s) = status_text s)"
proof -
  let ?s = "run (boot @ [Advance 500, Fire 1, DetectionSettled (Regions 1)]) loading_page"
  have a: "timers ?s 1 = Some (1000, FaceCheck)" "\<not> predict_disabled ?s" "face_green ?s"
    by (simp_all add: face_green_def run_defs)
  have r: "reachable ?s" "reachable (step Click ?s)"
    using reachable_loading_run reachable.after_step by blast+
  have n: "\<not> is_settle (Fire 2)" by simp
  from C8_polling_excludes_session [of ?s Click 1 1000] r(1) a
  have x: "in_session (step Click ?s)" "timers (step Click ?s) 1 \<noteq> Some (1000, FaceCheck)"
    "status_text (step (Fire 1) ?s) = status_text ?s"
    by blast+
  from C8_polling_excludes_session [of "step Click ?s" "Fire 2"] r(2) x(1) n
  have y: "in_session (step (Fire 2) (step Click ?s))"
    by blast
  show ?thesis unfolding Let_def using a x y by blast
qed

end
